(* ===== verification/JS_Prelude.thy ===== *)
theory JS_Prelude
  imports Main
begin

text \<open>
  Shared vocabulary of the model of \<open>src/src/applyMixin.js\<close>: the names of
  addresses and property keys, the exception--state monad in which every
  statement of the JavaScript source is modelled (a thrown exception is an
  \<open>Inl\<close> result and keeps the heap as it was when it was thrown: JavaScript
  performs no rollback), the update-or-append operation on association lists
  that models the creation of an own property at the end of an object's
  property order, and the generic lemmas on lists and maps the components share.
\<close>

named_theorems js_simps "symbolic-execution rules of the JavaScript model"

type_synonym addr = nat
type_synonym key = string

datatype js_error =
    TypeError
  | CallsUserCode

type_synonym ('s, 'a) js = "'s \<Rightarrow> (js_error + 'a) \<times> 's"

definition js_return :: "'a \<Rightarrow> ('s, 'a) js" where
  "js_return x s = (Inr x, s)"

definition js_throw :: "js_error \<Rightarrow> ('s, 'a) js" where
  "js_throw e s = (Inl e, s)"

definition js_bind :: "('s, 'a) js \<Rightarrow> ('a \<Rightarrow> ('s, 'b) js) \<Rightarrow> ('s, 'b) js" where
  "js_bind m f s = (case m s of (Inl e, s') \<Rightarrow> (Inl e, s') | (Inr x, s') \<Rightarrow> f x s')"

text \<open>
  Update-or-append on an association list: the entry of \<open>k\<close>, if any, is
  changed by \<open>f\<close> in place; otherwise \<open>(k, v)\<close> is appended. This is how an
  ordinary object's property list changes when a property is assigned.
\<close>

fun upd_or_append :: "'k \<Rightarrow> ('v \<Rightarrow> 'v) \<Rightarrow> 'v \<Rightarrow> ('k \<times> 'v) list \<Rightarrow> ('k \<times> 'v) list" where
  "upd_or_append k f v [] = [(k, v)]"
| "upd_or_append k f v ((k', w) # ps) =
     (if k = k' then (k', f w) # ps else (k', w) # upd_or_append k f v ps)"

subsection \<open>The monad\<close>

lemma js_bind_return [simp]: "js_bind (js_return x) f = f x"
  by (simp add: js_bind_def js_return_def fun_eq_iff)

lemma js_bind_return_right [simp]: "js_bind m js_return = m"
  by (auto simp: js_bind_def js_return_def fun_eq_iff split: prod.splits sum.splits)

lemma js_bind_throw [simp]: "js_bind (js_throw e) f = js_throw e"
  by (simp add: js_bind_def js_throw_def fun_eq_iff)

lemma js_bind_assoc:
  "js_bind (js_bind m f) g = js_bind m (\<lambda>x. js_bind (f x) g)"
  by (auto simp: js_bind_def fun_eq_iff split: prod.splits sum.splits)

lemma js_bind_Inl [js_simps]:
  "m s = (Inl e, s') \<Longrightarrow> js_bind m f s = (Inl e, s')"
  by (simp add: js_bind_def)

lemma js_bind_Inr [js_simps]:
  "m s = (Inr x, s') \<Longrightarrow> js_bind m f s = f x s'"
  by (simp add: js_bind_def)

lemma js_bind_result_cases:
  assumes "js_bind m f s = (r, s')"
  obtains (fail) e where "m s = (Inl e, s')" and "r = Inl e"
  | (ok) x s1 where "m s = (Inr x, s1)" and "f x s1 = (r, s')"
  using assms by (cases "m s" rule: prod.exhaust) (auto simp: js_bind_def split: sum.splits)

lemma js_return_apply [simp]: "js_return x s = (Inr x, s)"
  by (simp add: js_return_def)

lemma js_throw_apply [simp]: "js_throw e s = (Inl e, s)"
  by (simp add: js_throw_def)

subsection \<open>Update-or-append\<close>

lemma map_of_upd_or_append [simp]:
  "map_of (upd_or_append k f v ps) =
     (map_of ps)(k \<mapsto> (case map_of ps k of None \<Rightarrow> v | Some w \<Rightarrow> f w))"
  by (induction ps) (auto simp: fun_eq_iff)

lemma keys_upd_or_append:
  "map fst (upd_or_append k f v ps) =
     (if k \<in> set (map fst ps) then map fst ps else map fst ps @ [k])"
  by (induction ps) force+

lemma distinct_upd_or_append [simp]:
  "distinct (map fst (upd_or_append k f v ps)) = distinct (map fst ps)"
  by (simp add: keys_upd_or_append)

lemma upd_or_append_present:
  "k \<in> set (map fst ps) \<Longrightarrow> map fst (upd_or_append k f v ps) = map fst ps"
  by (simp add: keys_upd_or_append)

lemma upd_or_append_same:
  "map_of ps k = Some w \<Longrightarrow> f w = w \<Longrightarrow> upd_or_append k f v ps = ps"
  by (induction ps) (auto split: if_splits)

subsection \<open>Lists\<close>

lemma set_map_filter_Some: "set (List.map_filter f xs) = {y. \<exists>x \<in> set xs. f x = Some y}"
  by (induction xs) (auto split: option.splits)

lemma distinct_count_list_le: "distinct xs \<Longrightarrow> count_list xs x \<le> 1"
  by (induction xs) auto

subsection \<open>Maps\<close>

lemma restrict_map_dom_self [simp]: "f |` dom f = f"
  by (auto simp: restrict_map_def fun_eq_iff dom_def)

end
