(* ===== verification/JS_Heap.thy ===== *)
theory JS_Heap
  imports JS_Prelude
begin

text \<open>
  The part of the JavaScript object model that \<open>src/src/applyMixin.js\<close> exercises:
  values, objects with an ordered list of own data properties, a prototype link and
  a callable flag, and a heap of objects indexed by address. The operations are the
  ones the source performs: property read \<open>v[k]\<close> (OrdinaryGet along the prototype
  chain, with ToObject on primitives), property assignment \<open>v[k] = x\<close> in strict
  mode (the file is an ES module, and the polyfill says \<open>'use strict'\<close>),
  \<open>typeof v === 'function'\<close>, truthiness, \<open>Object.keys\<close> with the ECMAScript
  property order, and allocation of \<open>{}\<close>. Accessor properties, symbols,
  configurability and non-extensible objects are not modelled.
\<close>

datatype val = Undef | Null | Bool bool | Num int | Str string | Ref addr

record property =
  pval :: val
  writable :: bool
  enumerable :: bool

record obj =
  props :: "(key \<times> property) list"
  proto :: "addr option"
  callable :: bool

record realm =
  object_proto :: addr
  string_proto :: addr
  number_proto :: addr
  boolean_proto :: addr
  has_own_fn :: addr

record heap =
  objs :: "obj list"
  intrinsics :: realm

subsection \<open>Truthiness and typeof\<close>

fun truthy :: "val \<Rightarrow> bool" where
  "truthy Undef = False"
| "truthy Null = False"
| "truthy (Bool b) = b"
| "truthy (Num n) = (n \<noteq> 0)"
| "truthy (Str s) = (s \<noteq> [])"
| "truthy (Ref a) = True"

definition obj_at :: "heap \<Rightarrow> addr \<Rightarrow> obj option" where
  "obj_at h a = (if a < length (objs h) then Some (objs h ! a) else None)"

fun is_function :: "heap \<Rightarrow> val \<Rightarrow> bool" where
  "is_function h (Ref a) = (case obj_at h a of Some ob \<Rightarrow> callable ob | None \<Rightarrow> False)"
| "is_function h _ = False"

text \<open>The \<open>typeof\<close> operator.\<close>

fun js_typeof :: "heap \<Rightarrow> val \<Rightarrow> string" where
  "js_typeof h Undef = ''undefined''"
| "js_typeof h Null = ''object''"
| "js_typeof h (Bool b) = ''boolean''"
| "js_typeof h (Num n) = ''number''"
| "js_typeof h (Str s) = ''string''"
| "js_typeof h (Ref a) = (if is_function h (Ref a) then ''function'' else ''object'')"

definition nullish :: "val \<Rightarrow> bool" where
  "nullish v = (v = Undef \<or> v = Null)"

subsection \<open>Property keys of array indices\<close>

definition decimal_digits :: string where
  "decimal_digits = ''0123456789''"

definition digit_char :: "nat \<Rightarrow> char" where
  "digit_char d = decimal_digits ! d"

definition digit_value :: "char \<Rightarrow> nat option" where
  "digit_value c = map_of (zip decimal_digits [0, 1, 2, 3, 4, 5, 6, 7, 8, 9]) c"

fun dec_string :: "nat \<Rightarrow> string" where
  "dec_string n =
     (if n < 10 then [digit_char n] else dec_string (n div 10) @ [digit_char (n mod 10)])"

declare dec_string.simps [simp del]

definition is_digit :: "char \<Rightarrow> bool" where
  "is_digit c = (digit_value c \<noteq> None)"

definition dec_value :: "string \<Rightarrow> nat" where
  "dec_value s = foldl (\<lambda>n c. 10 * n + (case digit_value c of Some d \<Rightarrow> d | None \<Rightarrow> 0)) 0 s"

definition canonical_index :: "key \<Rightarrow> nat option" where
  "canonical_index k =
     (if k \<noteq> [] \<and> list_all is_digit k \<and> dec_string (dec_value k) = k
      then Some (dec_value k) else None)"

definition array_index :: "key \<Rightarrow> nat option" where
  "array_index k =
     (case canonical_index k of
        Some n \<Rightarrow> if n < 2 ^ 32 - 1 then Some n else None
      | None \<Rightarrow> None)"

text \<open>OrdinaryOwnPropertyKeys: array indices ascending, then the other keys in creation order.\<close>

definition ordered_keys :: "key list \<Rightarrow> key list" where
  "ordered_keys ks =
     map dec_string (sort (List.map_filter array_index ks)) @ filter (\<lambda>k. array_index k = None) ks"

subsection \<open>Own properties and prototypes of values\<close>

text \<open>The own properties of a primitive string: its indices and its length.\<close>

definition string_own_props :: "string \<Rightarrow> (key \<times> property) list" where
  "string_own_props s =
     map (\<lambda>i. (dec_string i, \<lparr>pval = Str [s ! i], writable = False, enumerable = True\<rparr>))
         [0..<length s]
     @ [(''length'', \<lparr>pval = Num (int (length s)), writable = False, enumerable = False\<rparr>)]"

fun own_props_of :: "heap \<Rightarrow> val \<Rightarrow> (key \<times> property) list" where
  "own_props_of h (Ref a) = (case obj_at h a of Some ob \<Rightarrow> props ob | None \<Rightarrow> [])"
| "own_props_of h (Str s) = string_own_props s"
| "own_props_of h _ = []"

fun proto_of :: "heap \<Rightarrow> val \<Rightarrow> addr option" where
  "proto_of h (Ref a) = (case obj_at h a of Some ob \<Rightarrow> proto ob | None \<Rightarrow> None)"
| "proto_of h (Str s) = Some (string_proto (intrinsics h))"
| "proto_of h (Num n) = Some (number_proto (intrinsics h))"
| "proto_of h (Bool b) = Some (boolean_proto (intrinsics h))"
| "proto_of h _ = None"

subsection \<open>Property lookup along the prototype chain\<close>

text \<open>
  The walk of OrdinaryGet: the own property if there is one, else the prototype's.
  ECMAScript keeps prototype chains acyclic; the heap invariant below makes this
  concrete (a prototype has a smaller address than the object), and the walk
  follows only such links, which is what makes it a terminating function. On every
  heap satisfying the invariant the guard holds; \<open>lookup_prop_chain\<close> below
  proves that the walk then agrees with the unguarded inductive specification.
\<close>

function lookup_prop :: "heap \<Rightarrow> addr \<Rightarrow> key \<Rightarrow> property option" where
  "lookup_prop h a k =
     (case obj_at h a of
        None \<Rightarrow> None
      | Some ob \<Rightarrow>
          (case map_of (props ob) k of
             Some p \<Rightarrow> Some p
           | None \<Rightarrow>
               (case proto ob of
                  None \<Rightarrow> None
                | Some b \<Rightarrow> if b < a then lookup_prop h b k else None)))"
  by pat_completeness auto
termination
  by (relation "measure (\<lambda>(h, a, k). a)") auto

declare lookup_prop.simps [simp del]

text \<open>
  OrdinaryGet's loop as the specification writes it, with no guard on the prototype's
  address: on a heap with a prototype cycle it need not return, so it is a partial
  function whose \<open>None\<close> is "does not return".
\<close>

partial_function (option) proto_walk :: "heap \<Rightarrow> addr \<Rightarrow> key \<Rightarrow> property option option" where
  "proto_walk h a k =
     (case obj_at h a of
        None \<Rightarrow> Some None
      | Some ob \<Rightarrow>
          (case map_of (props ob) k of
             Some p \<Rightarrow> Some (Some p)
           | None \<Rightarrow> (case proto ob of None \<Rightarrow> Some None | Some b \<Rightarrow> proto_walk h b k)))"

inductive chain_prop :: "heap \<Rightarrow> addr \<Rightarrow> key \<Rightarrow> property option \<Rightarrow> bool" where
  own: "obj_at h a = Some ob \<Longrightarrow> map_of (props ob) k = Some p \<Longrightarrow> chain_prop h a k (Some p)"
| inherit: "obj_at h a = Some ob \<Longrightarrow> map_of (props ob) k = None \<Longrightarrow> proto ob = Some b \<Longrightarrow>
    chain_prop h b k r \<Longrightarrow> chain_prop h a k r"
| top: "obj_at h a = Some ob \<Longrightarrow> map_of (props ob) k = None \<Longrightarrow> proto ob = None \<Longrightarrow>
    chain_prop h a k None"

fun find_prop :: "heap \<Rightarrow> val \<Rightarrow> key \<Rightarrow> property option" where
  "find_prop h (Ref a) k = lookup_prop h a k"
| "find_prop h v k =
     (case map_of (own_props_of h v) k of
        Some p \<Rightarrow> Some p
      | None \<Rightarrow> (case proto_of h v of None \<Rightarrow> None | Some b \<Rightarrow> lookup_prop h b k))"

text \<open>GetValue of \<open>v[k]\<close>: a TypeError on \<open>undefined\<close> and \<open>null\<close>.\<close>

definition get_value :: "heap \<Rightarrow> val \<Rightarrow> key \<Rightarrow> js_error + val" where
  "get_value h v k =
     (if nullish v then Inl TypeError
      else Inr (case find_prop h v k of Some p \<Rightarrow> pval p | None \<Rightarrow> Undef))"

definition js_get :: "val \<Rightarrow> key \<Rightarrow> (heap, val) js" where
  "js_get v k h = (get_value h v k, h)"

subsection \<open>Property assignment (strict mode)\<close>

definition new_data_prop :: "val \<Rightarrow> property" where
  "new_data_prop v = \<lparr>pval = v, writable = True, enumerable = True\<rparr>"

definition put_own :: "addr \<Rightarrow> key \<Rightarrow> val \<Rightarrow> heap \<Rightarrow> heap" where
  "put_own a k v h =
     (if a < length (objs h) then
        h\<lparr>objs := (objs h)[a := (objs h ! a)\<lparr>props :=
           upd_or_append k (\<lambda>p. p\<lparr>pval := v\<rparr>) (new_data_prop v) (props (objs h ! a))\<rparr>]\<rparr>
      else h)"

text \<open>
  PutValue in strict mode with OrdinarySet: a non-writable property found on the
  chain makes the assignment fail, which strict code turns into a TypeError; an
  assignment to a primitive base always fails the same way; otherwise the own
  property is updated in place or created at the end of the property order.
\<close>

definition js_set :: "val \<Rightarrow> key \<Rightarrow> val \<Rightarrow> (heap, unit) js" where
  "js_set base k v h =
     (case base of
        Ref a \<Rightarrow>
          (case lookup_prop h a k of
             Some p \<Rightarrow> if writable p then (Inr (), put_own a k v h) else (Inl TypeError, h)
           | None \<Rightarrow> (Inr (), put_own a k v h))
      | _ \<Rightarrow> (Inl TypeError, h))"

subsection \<open>Object.keys and allocation\<close>

definition enum_keys :: "(key \<times> property) list \<Rightarrow> key list" where
  "enum_keys ps = ordered_keys (map fst (filter (\<lambda>(k, p). enumerable p) ps))"

definition object_keys :: "val \<Rightarrow> (heap, key list) js" where
  "object_keys v h =
     (if nullish v then (Inl TypeError, h) else (Inr (enum_keys (own_props_of h v)), h))"

definition alloc :: "obj \<Rightarrow> (heap, addr) js" where
  "alloc ob h = (Inr (length (objs h)), h\<lparr>objs := objs h @ [ob]\<rparr>)"

definition new_object :: "(heap, addr) js" where
  "new_object h =
     alloc \<lparr>props = [], proto = Some (object_proto (intrinsics h)), callable = False\<rparr> h"

subsection \<open>Heap invariant and frames\<close>

text \<open>
  The invariant of every heap a JavaScript engine can produce, as far as the model
  needs it: property names of an object are distinct, references stored in
  properties point into the heap, a prototype was allocated before the object (so
  prototype chains are acyclic), and the intrinsic objects exist, the builtin
  \<open>Object.prototype.hasOwnProperty\<close> being callable.
\<close>

fun val_ok :: "nat \<Rightarrow> val \<Rightarrow> bool" where
  "val_ok n (Ref a) = (a < n)"
| "val_ok n _ = True"

definition obj_ok :: "nat \<Rightarrow> addr \<Rightarrow> obj \<Rightarrow> bool" where
  "obj_ok n a ob =
     (distinct (map fst (props ob)) \<and> list_all (\<lambda>(k, p). val_ok n (pval p)) (props ob) \<and>
      (case proto ob of None \<Rightarrow> True | Some b \<Rightarrow> b < a))"

definition realm_below :: "nat \<Rightarrow> realm \<Rightarrow> bool" where
  "realm_below n r =
     (object_proto r < n \<and> string_proto r < n \<and> number_proto r < n \<and>
      boolean_proto r < n \<and> has_own_fn r < n)"

definition realm_ok :: "heap \<Rightarrow> bool" where
  "realm_ok h =
     (realm_below (length (objs h)) (intrinsics h) \<and> callable (objs h ! has_own_fn (intrinsics h)))"

definition heap_ok :: "heap \<Rightarrow> bool" where
  "heap_ok h =
     (list_all (\<lambda>a. obj_ok (length (objs h)) a (objs h ! a)) [0..<length (objs h)] \<and> realm_ok h)"

text \<open>
  A frame: \<open>h'\<close> extends \<open>h\<close>, keeps the intrinsics and every prototype link
  and callable flag, and changes an own property of an old object only at the
  (address, key) cells of \<open>W\<close>.
\<close>

definition heap_frame :: "(addr \<times> key) set \<Rightarrow> heap \<Rightarrow> heap \<Rightarrow> bool" where
  "heap_frame W h h' =
     (length (objs h) \<le> length (objs h') \<and> intrinsics h' = intrinsics h \<and>
      (\<forall>a < length (objs h).
         proto (objs h' ! a) = proto (objs h ! a) \<and> callable (objs h' ! a) = callable (objs h ! a) \<and>
         (\<forall>k. (a, k) \<notin> W \<longrightarrow> map_of (props (objs h' ! a)) k = map_of (props (objs h ! a)) k)))"

fun addr_of :: "val \<Rightarrow> addr set" where
  "addr_of (Ref a) = {a}"
| "addr_of _ = {}"

text \<open>Runs made only of own-property writes to objects in \<open>A\<close>, with no allocation.\<close>

inductive put_steps :: "addr set \<Rightarrow> heap \<Rightarrow> heap \<Rightarrow> bool" for A where
  put_none: "put_steps A h h"
| put_more: "put_steps A h h' \<Longrightarrow> a \<in> A \<Longrightarrow> put_steps A h (put_own a k v h')"

text \<open>Every own property of the object at \<open>a\<close> is enumerable.\<close>

definition enum_props :: "heap \<Rightarrow> addr \<Rightarrow> bool" where
  "enum_props h a = list_all (\<lambda>(k, p). enumerable p) (props (objs h ! a))"

section \<open>Lemmas\<close>

subsection \<open>Array-index keys\<close>

lemma digit_value_digit_char: "d < 10 \<Longrightarrow> digit_value (digit_char d) = Some d"
  by (auto simp: digit_value_def digit_char_def decimal_digits_def numeral_eq_Suc less_Suc_eq)

lemma digit_char_mod: "digit_value (digit_char (n mod 10)) = Some (n mod 10)"
  by (simp add: digit_value_digit_char)

lemma dec_value_snoc:
  "dec_value (s @ [c]) = 10 * dec_value s + (case digit_value c of Some d \<Rightarrow> d | None \<Rightarrow> 0)"
  by (simp add: dec_value_def)

lemma dec_string_props:
  "dec_string n \<noteq> [] \<and> list_all is_digit (dec_string n) \<and> dec_value (dec_string n) = n"
proof (induction n rule: dec_string.induct)
  case (1 n)
  show ?case
  proof (cases "n < 10")
    case True
    then show ?thesis
      by (simp add: dec_string.simps [of n] is_digit_def digit_value_digit_char dec_value_def)
  next
    case False
    with "1.IH" have ih: "list_all is_digit (dec_string (n div 10))"
      and iv: "dec_value (dec_string (n div 10)) = n div 10" by simp_all
    have "dec_value (dec_string n) = 10 * (n div 10) + n mod 10"
      using False iv by (simp add: dec_string.simps [of n] dec_value_snoc digit_char_mod)
    moreover have "is_digit (digit_char (n mod 10))"
      by (simp add: is_digit_def digit_char_mod)
    ultimately show ?thesis
      using False ih by (simp add: dec_string.simps [of n])
  qed
qed

lemma canonical_index_Some: "canonical_index k = Some n \<Longrightarrow> k = dec_string n"
  by (simp add: canonical_index_def split: if_splits)

subsection \<open>Basic facts on heaps\<close>


lemma list_all_upd_or_append:
  "list_all P ps \<Longrightarrow> P (k, v) \<Longrightarrow> (\<And>k' w. P (k', w) \<Longrightarrow> P (k', f w)) \<Longrightarrow>
   list_all P (upd_or_append k f v ps)"
  by (induction ps) auto

lemma heap_ok_iff:
  "heap_ok h \<longleftrightarrow> (\<forall>a < length (objs h). obj_ok (length (objs h)) a (objs h ! a)) \<and> realm_ok h"
  by (auto simp: heap_ok_def list_all_iff)

lemma heap_okD:
  "heap_ok h \<Longrightarrow> a < length (objs h) \<Longrightarrow> obj_ok (length (objs h)) a (objs h ! a)"
  by (simp add: heap_ok_iff)

lemma obj_at_Some [simp]: "obj_at h a = Some ob \<longleftrightarrow> a < length (objs h) \<and> ob = objs h ! a"
  by (auto simp: obj_at_def)

lemma obj_at_None [simp]: "obj_at h a = None \<longleftrightarrow> length (objs h) \<le> a"
  by (auto simp: obj_at_def)

lemma lookup_prop_in:
  "a < length (objs h) \<Longrightarrow> lookup_prop h a k =
     (case map_of (props (objs h ! a)) k of
        Some p \<Rightarrow> Some p
      | None \<Rightarrow> (case proto (objs h ! a) of
                  None \<Rightarrow> None
                | Some b \<Rightarrow> if b < a then lookup_prop h b k else None))"
  by (simp add: lookup_prop.simps [of h a k] obj_at_def)

lemma lookup_prop_out: "length (objs h) \<le> a \<Longrightarrow> lookup_prop h a k = None"
  by (simp add: lookup_prop.simps [of h a k] obj_at_def)

subsection \<open>Frames\<close>

lemma heap_frame_refl [simp]: "heap_frame W h h"
  by (simp add: heap_frame_def)

lemma heap_frame_trans:
  "heap_frame W1 h1 h2 \<Longrightarrow> heap_frame W2 h2 h3 \<Longrightarrow> heap_frame (W1 \<union> W2) h1 h3"
  unfolding heap_frame_def by (metis (no_types, lifting) UnI1 UnI2 dual_order.trans order_less_le_trans)

lemma heap_frame_mono: "heap_frame W h h' \<Longrightarrow> W \<subseteq> W' \<Longrightarrow> heap_frame W' h h'"
  unfolding heap_frame_def by blast

lemma heap_frame_length: "heap_frame W h h' \<Longrightarrow> length (objs h) \<le> length (objs h')"
  by (simp add: heap_frame_def)

lemma heap_frame_intrinsics: "heap_frame W h h' \<Longrightarrow> intrinsics h' = intrinsics h"
  by (simp add: heap_frame_def)

lemma heap_frame_proto:
  "heap_frame W h h' \<Longrightarrow> a < length (objs h) \<Longrightarrow> proto (objs h' ! a) = proto (objs h ! a)"
  by (simp add: heap_frame_def)

lemma heap_frame_map_of:
  "heap_frame W h h' \<Longrightarrow> a < length (objs h) \<Longrightarrow> (a, k) \<notin> W \<Longrightarrow>
   map_of (props (objs h' ! a)) k = map_of (props (objs h ! a)) k"
  by (simp add: heap_frame_def)

lemma lookup_prop_frame:
  "heap_frame W h h' \<Longrightarrow> a < length (objs h) \<Longrightarrow> \<forall>b \<le> a. (b, k) \<notin> W \<Longrightarrow>
   lookup_prop h' a k = lookup_prop h a k"
proof (induction h a k rule: lookup_prop.induct)
  case (1 h a k)
  have a': "a < length (objs h')"
    using "1.prems"(1,2) heap_frame_length by fastforce
  have m: "map_of (props (objs h' ! a)) k = map_of (props (objs h ! a)) k"
    using "1.prems" heap_frame_map_of by blast
  have p: "proto (objs h' ! a) = proto (objs h ! a)"
    using "1.prems"(1,2) heap_frame_proto by blast
  show ?case
  proof (cases "map_of (props (objs h ! a)) k")
    case None
    show ?thesis
    proof (cases "proto (objs h ! a)")
      case (Some b)
      show ?thesis
      proof (cases "b < a")
        case True
        then have "lookup_prop h' b k = lookup_prop h b k"
          using "1.IH" [of "objs h ! a" b] "1.prems" None Some by simp
        then show ?thesis
          using a' "1.prems"(2) m p None Some True
          by (simp add: lookup_prop_in)
      qed (use a' "1.prems"(2) m p None Some in \<open>simp add: lookup_prop_in\<close>)
    qed (use a' "1.prems"(2) m p None in \<open>simp add: lookup_prop_in\<close>)
  qed (use a' "1.prems"(2) m in \<open>simp add: lookup_prop_in\<close>)
qed


subsection \<open>Own-property update\<close>

lemma length_put_own [simp]: "length (objs (put_own a k v h)) = length (objs h)"
  by (simp add: put_own_def)

lemma intrinsics_put_own [simp]: "intrinsics (put_own a k v h) = intrinsics h"
  by (simp add: put_own_def)

lemma put_own_other [simp]: "b \<noteq> a \<Longrightarrow> objs (put_own a k v h) ! b = objs h ! b"
  by (simp add: put_own_def)

lemma put_own_same:
  "a < length (objs h) \<Longrightarrow> objs (put_own a k v h) ! a =
     (objs h ! a)\<lparr>props := upd_or_append k (\<lambda>p. p\<lparr>pval := v\<rparr>) (new_data_prop v) (props (objs h ! a))\<rparr>"
  by (simp add: put_own_def)

lemma map_of_put_own:
  "a < length (objs h) \<Longrightarrow> map_of (props (objs (put_own a k v h) ! b)) k' =
     (if b = a \<and> k' = k then
        Some (case map_of (props (objs h ! a)) k of None \<Rightarrow> new_data_prop v | Some p \<Rightarrow> p\<lparr>pval := v\<rparr>)
      else map_of (props (objs h ! b)) k')"
  by (cases "b = a") (simp_all add: put_own_same)

lemma put_own_frame: "heap_frame {(a, k)} h (put_own a k v h)"
  unfolding heap_frame_def put_own_def by (auto simp: nth_list_update)

lemma heap_ok_put_own:
  assumes "heap_ok h" and "val_ok (length (objs h)) v"
  shows "heap_ok (put_own a k v h)"
proof (cases "a < length (objs h)")
  case True
  have "obj_ok (length (objs h)) a (objs h ! a)"
    using assms(1) True by (rule heap_okD)
  then have "obj_ok (length (objs h)) a (objs (put_own a k v h) ! a)"
    using assms(2) True
    by (auto simp: obj_ok_def put_own_same new_data_prop_def intro!: list_all_upd_or_append)
  then show ?thesis
    using assms(1) by (auto simp: heap_ok_iff realm_ok_def realm_below_def nth_list_update put_own_def)
next
  case False
  then show ?thesis using assms(1) by (simp add: put_own_def)
qed


subsection \<open>Allocation\<close>

lemma obj_ok_mono: "obj_ok n a ob \<Longrightarrow> n \<le> m \<Longrightarrow> obj_ok m a ob"
proof -
  assume ok: "obj_ok n a ob" and le: "n \<le> m"
  have "\<And>v. val_ok n v \<Longrightarrow> val_ok m v"
    using le by (case_tac v) auto
  with ok show ?thesis
    by (auto simp: obj_ok_def list_all_iff)
qed

lemma alloc_result:
  "alloc ob h = (r, h') \<longleftrightarrow> r = Inr (length (objs h)) \<and> h' = h\<lparr>objs := objs h @ [ob]\<rparr>"
  by (auto simp: alloc_def)

lemma alloc_frame: "alloc ob h = (r, h') \<Longrightarrow> heap_frame {} h h'"
  by (auto simp: alloc_def heap_frame_def nth_append)

lemma heap_ok_alloc:
  assumes "heap_ok h" and "obj_ok (Suc (length (objs h))) (length (objs h)) ob"
    and "alloc ob h = (r, h')"
  shows "heap_ok h'"
proof -
  have "\<forall>a < length (objs h). obj_ok (Suc (length (objs h))) a (objs h ! a)"
    using assms(1) by (auto simp: heap_ok_iff intro: obj_ok_mono)
  then show ?thesis
    using assms by (auto simp: heap_ok_iff alloc_def realm_ok_def realm_below_def nth_append less_Suc_eq)
qed

lemma new_object_result:
  "new_object h = (r, h') \<longleftrightarrow> r = Inr (length (objs h)) \<and>
     h' = h\<lparr>objs := objs h @ [\<lparr>props = [], proto = Some (object_proto (intrinsics h)), callable = False\<rparr>]\<rparr>"
  by (simp add: new_object_def alloc_result)

lemma heap_ok_new_object:
  assumes "heap_ok h" and "new_object h = (r, h')"
  shows "heap_ok h'"
proof -
  have "object_proto (intrinsics h) < length (objs h)"
    using assms(1) by (simp add: heap_ok_iff realm_ok_def realm_below_def)
  then have "obj_ok (Suc (length (objs h))) (length (objs h))
     \<lparr>props = [], proto = Some (object_proto (intrinsics h)), callable = False\<rparr>"
    by (simp add: obj_ok_def)
  from heap_ok_alloc [OF assms(1) this] assms(2) show ?thesis
    unfolding new_object_def by blast
qed

lemma new_object_frame: "new_object h = (r, h') \<Longrightarrow> heap_frame {} h h'"
  unfolding new_object_def by (rule alloc_frame)

subsection \<open>The prototype walk meets its specification\<close>

lemma lookup_prop_chain:
  "heap_ok h \<Longrightarrow> a < length (objs h) \<Longrightarrow> chain_prop h a k (lookup_prop h a k)"
proof (induction h a k rule: lookup_prop.induct)
  case (1 h a k)
  have ok: "obj_ok (length (objs h)) a (objs h ! a)"
    using "1.prems" by (rule heap_okD)
  show ?case
  proof (cases "map_of (props (objs h ! a)) k")
    case None
    show ?thesis
    proof (cases "proto (objs h ! a)")
      case (Some b)
      with ok have "b < a" by (simp add: obj_ok_def)
      with "1.IH" [of "objs h ! a" b] "1.prems" None Some
      have "chain_prop h b k (lookup_prop h b k)" by simp
      with None Some \<open>b < a\<close> "1.prems"(2) show ?thesis
        by (simp add: lookup_prop_in chain_prop.inherit [of h a "objs h ! a"])
    next
      case None': None
      with None "1.prems"(2) show ?thesis
        by (simp add: lookup_prop_in chain_prop.top [of h a "objs h ! a"])
    qed
  next
    case (Some p)
    with "1.prems"(2) show ?thesis
      by (simp add: lookup_prop_in chain_prop.own [of h a "objs h ! a"])
  qed
qed

lemma chain_prop_lookup: "chain_prop h a k r \<Longrightarrow> heap_ok h \<Longrightarrow> r = lookup_prop h a k"
proof (induction rule: chain_prop.induct)
  case (own h a ob k p)
  then show ?case by (simp add: lookup_prop_in)
next
  case (inherit h a ob k b r)
  then have "b < a" using heap_okD [of h a] by (auto simp: obj_ok_def)
  with inherit show ?case by (simp add: lookup_prop_in)
next
  case (top h a ob k)
  then show ?case by (simp add: lookup_prop_in)
qed

lemma chain_prop_addr: "chain_prop h a k r \<Longrightarrow> a < length (objs h)"
  by (induction rule: chain_prop.induct) auto


subsection \<open>Reading properties\<close>

lemma val_ok_mono: "val_ok n v \<Longrightarrow> n \<le> m \<Longrightarrow> val_ok m v"
  by (cases v) auto

lemma heap_ok_realm: "heap_ok h \<Longrightarrow> realm_ok h"
  by (simp add: heap_ok_iff)

lemma realm_below_mono: "realm_below n r \<Longrightarrow> n \<le> m \<Longrightarrow> realm_below m r"
  by (auto simp: realm_below_def)

lemma realm_ok_frame:
  assumes "realm_ok h" and "heap_frame W h h'"
  shows "realm_ok h'"
proof -
  have "has_own_fn (intrinsics h) < length (objs h)"
    using assms(1) by (simp add: realm_ok_def realm_below_def)
  then show ?thesis
    using assms by (auto simp: realm_ok_def heap_frame_def intro: realm_below_mono)
qed

lemma lookup_prop_val_ok:
  "heap_ok h \<Longrightarrow> lookup_prop h a k = Some p \<Longrightarrow> val_ok (length (objs h)) (pval p)"
proof (induction h a k rule: lookup_prop.induct)
  case (1 h a k)
  then have a: "a < length (objs h)"
    by (metis lookup_prop_out not_le option.distinct(1))
  have ok: "obj_ok (length (objs h)) a (objs h ! a)"
    using "1.prems"(1) a by (rule heap_okD)
  show ?case
  proof (cases "map_of (props (objs h ! a)) k")
    case None
    with "1.prems"(2) a obtain b where "proto (objs h ! a) = Some b" and "b < a"
      and "lookup_prop h b k = Some p"
      by (auto simp: lookup_prop_in split: option.splits if_splits)
    with "1.IH" [of "objs h ! a" b] "1.prems"(1) None a show ?thesis by simp
  next
    case (Some q)
    with "1.prems"(2) a have "(k, p) \<in> set (props (objs h ! a))"
      by (simp add: lookup_prop_in map_of_SomeD)
    with ok show ?thesis by (auto simp: obj_ok_def list_all_iff)
  qed
qed

lemma string_own_props_val_ok: "(k, p) \<in> set (string_own_props s) \<Longrightarrow> val_ok n (pval p)"
  by (auto simp: string_own_props_def)

lemma get_value_val_ok:
  assumes "heap_ok h" and "val_ok (length (objs h)) v" and "get_value h v k = Inr x"
  shows "val_ok (length (objs h)) x"
proof (cases "find_prop h v k")
  case None
  with assms(3) show ?thesis by (auto simp: get_value_def split: if_splits)
next
  case (Some p)
  then have x: "x = pval p" using assms(3) by (auto simp: get_value_def split: if_splits)
  show ?thesis
  proof (cases v)
    case (Ref a)
    with Some assms(1) x show ?thesis by (auto intro: lookup_prop_val_ok)
  next
    case (Str s)
    with Some x show ?thesis
      by (auto split: option.splits dest: map_of_SomeD string_own_props_val_ok
               intro: lookup_prop_val_ok [OF assms(1)])
  qed (use Some x assms(1) in \<open>auto split: option.splits intro: lookup_prop_val_ok\<close>)
qed

lemma get_value_frame:
  assumes "heap_frame W h h'" and "realm_below n (intrinsics h)" and "val_ok n v"
    and "n \<le> length (objs h)" and "\<forall>b < n. (b, k) \<notin> W"
  shows "get_value h' v k = get_value h v k"
proof -
  have lk: "lookup_prop h' b k = lookup_prop h b k" if "b < n" for b
    using lookup_prop_frame [OF assms(1)] that assms(4,5) by auto
  have r: "intrinsics h' = intrinsics h"
    using assms(1) by (rule heap_frame_intrinsics)
  show ?thesis
  proof (cases v)
    case (Ref a)
    with assms(3) lk show ?thesis by (simp add: get_value_def)
  next
    case (Str s)
    with r lk assms(2) show ?thesis
      by (simp add: get_value_def realm_below_def nullish_def split: option.splits)
  next
    case (Num i)
    with r lk assms(2) show ?thesis by (simp add: get_value_def realm_below_def)
  next
    case (Bool b)
    with r lk assms(2) show ?thesis by (simp add: get_value_def realm_below_def)
  qed (simp_all add: get_value_def nullish_def)
qed

subsection \<open>Assigning properties\<close>

lemma js_set_cases:
  assumes "js_set base k v h = (r, h')"
  obtains (fail) "r = Inl TypeError" and "h' = h"
  | (ok) a where "base = Ref a" and "r = Inr ()" and "h' = put_own a k v h"
    and "case lookup_prop h a k of None \<Rightarrow> True | Some p \<Rightarrow> writable p"
  using assms by (auto simp: js_set_def split: val.splits option.splits if_splits)

lemma js_set_Ref_writable:
  "(case lookup_prop h a k of None \<Rightarrow> True | Some p \<Rightarrow> writable p) \<Longrightarrow>
   js_set (Ref a) k v h = (Inr (), put_own a k v h)"
  by (cases "lookup_prop h a k") (simp_all add: js_set_def)

lemma js_set_frame: "js_set base k v h = (r, h') \<Longrightarrow> heap_frame (addr_of base \<times> {k}) h h'"
  by (erule js_set_cases) (auto intro: put_own_frame)

lemma heap_ok_js_set:
  "heap_ok h \<Longrightarrow> val_ok (length (objs h)) v \<Longrightarrow> js_set base k v h = (r, h') \<Longrightarrow> heap_ok h'"
  by (erule js_set_cases [of base k v h r h']) (auto intro: heap_ok_put_own)

lemma heap_frame_restrict:
  "heap_frame W h h' \<Longrightarrow> (\<And>a k. (a, k) \<in> W \<Longrightarrow> a < length (objs h) \<Longrightarrow> (a, k) \<in> W') \<Longrightarrow>
   heap_frame W' h h'"
  unfolding heap_frame_def by blast

lemma js_get_result [simp]: "js_get v k h = (r, h') \<longleftrightarrow> r = get_value h v k \<and> h' = h"
  by (auto simp: js_get_def)

lemma dec_string_inj: "dec_string i = dec_string j \<Longrightarrow> i = j"
  by (metis dec_string_props)

lemma length_not_dec_string: "dec_string i \<noteq> ''length''"
proof
  assume "dec_string i = ''length''"
  then have "list_all is_digit ''length''" using dec_string_props [of i] by simp
  then show False by (simp add: is_digit_def digit_value_def decimal_digits_def)
qed

lemma distinct_string_own_props: "distinct (map fst (string_own_props s))"
proof -
  have keys: "map fst (string_own_props s) = map dec_string [0..<length s] @ [''length'']"
    by (simp add: string_own_props_def comp_def)
  have "inj_on dec_string {0..<length s}"
    by (auto intro: inj_onI dec_string_inj)
  then show ?thesis
    unfolding keys by (auto simp: distinct_map dest: sym [THEN length_not_dec_string [THEN notE]])
qed

subsection \<open>Property order\<close>

lemma canonical_index_dec_string: "canonical_index (dec_string n) = Some n"
  using dec_string_props [of n] by (simp add: canonical_index_def)

lemma array_index_Some: "array_index k = Some n \<Longrightarrow> k = dec_string n \<and> n < 2 ^ 32 - 1"
  by (auto simp: array_index_def split: option.splits if_splits dest: canonical_index_Some)

lemma array_index_dec_string: "n < 2 ^ 32 - 1 \<Longrightarrow> array_index (dec_string n) = Some n"
  by (simp add: array_index_def canonical_index_dec_string)

lemma set_map_filter_array_index:
  "dec_string ` set (List.map_filter array_index ks) = {k \<in> set ks. array_index k \<noteq> None}"
  by (auto simp: set_map_filter_Some image_iff dest: array_index_Some)

lemma set_ordered_keys [simp]: "set (ordered_keys ks) = set ks"
  by (auto simp: ordered_keys_def set_map_filter_array_index)

lemma distinct_map_filter_array_index:
  "distinct ks \<Longrightarrow> distinct (List.map_filter array_index ks)"
proof (induction ks)
  case (Cons k ks)
  then show ?case
    by (auto simp: set_map_filter_Some split: option.splits dest!: array_index_Some)
qed (simp add: map_filter_simps)

lemma distinct_ordered_keys: "distinct ks \<Longrightarrow> distinct (ordered_keys ks)"
proof -
  assume d: "distinct ks"
  have "inj_on dec_string (set (List.map_filter array_index ks))"
    by (auto intro: inj_onI dec_string_inj)
  then have "distinct (map dec_string (sort (List.map_filter array_index ks)))"
    using distinct_map_filter_array_index [OF d] by (simp add: distinct_map)
  moreover have "set (map dec_string (sort (List.map_filter array_index ks))) \<inter>
                 set (filter (\<lambda>k. array_index k = None) ks) = {}"
    using set_map_filter_array_index [of ks] by auto
  ultimately show ?thesis using d by (simp add: ordered_keys_def)
qed

text \<open>Filtering a key list commutes with putting it in property order.\<close>

lemma map_filter_array_index_filter:
  "List.map_filter array_index (filter P ks) = filter (\<lambda>n. P (dec_string n)) (List.map_filter array_index ks)"
  by (induction ks) (auto split: option.splits dest: array_index_Some)

lemma ordered_keys_filter: "filter P (ordered_keys ks) = ordered_keys (filter P ks)"
  by (simp add: ordered_keys_def filter_map filter_sort map_filter_array_index_filter o_def
      conj_commute)

lemma set_enum_keys: "set (enum_keys ps) = fst ` {x \<in> set ps. enumerable (snd x)}"
  by (auto simp: enum_keys_def)

lemma distinct_enum_keys: "distinct (map fst ps) \<Longrightarrow> distinct (enum_keys ps)"
  unfolding enum_keys_def by (rule distinct_ordered_keys) (simp add: distinct_map_filter)

lemma distinct_own_props_of:
  "heap_ok h \<Longrightarrow> distinct (map fst (own_props_of h v))"
  by (cases v) (auto simp: obj_at_def obj_ok_def distinct_string_own_props dest: heap_okD)

lemma get_value_Ref:
  "get_value h (Ref a) k = Inr (case lookup_prop h a k of Some p \<Rightarrow> pval p | None \<Rightarrow> Undef)"
  by (simp add: get_value_def nullish_def)

lemma get_value_Ref_frame:
  "heap_frame W h h' \<Longrightarrow> a < length (objs h) \<Longrightarrow> \<forall>b \<le> a. (b, k) \<notin> W \<Longrightarrow>
   get_value h' (Ref a) k = get_value h (Ref a) k"
  by (simp add: get_value_Ref lookup_prop_frame)

lemma is_function_frame:
  "heap_frame W h h' \<Longrightarrow> val_ok (length (objs h)) v \<Longrightarrow> is_function h' v = is_function h v"
  by (cases v) (auto simp: obj_at_def heap_frame_def)

lemma js_typeof_function_iff [simp]: "(js_typeof h v = ''function'') = is_function h v"
  by (cases v) simp_all

lemma get_value_own:
  assumes "\<not> nullish v" and "map_of (own_props_of h v) k = Some p"
  shows "get_value h v k = Inr (pval p)"
  using assms by (cases v) (auto simp: get_value_def lookup_prop_in obj_at_def nullish_def
      split: if_splits)

lemma length_js_set: "js_set b k v h = (r, h') \<Longrightarrow> length (objs h') = length (objs h)"
  by (erule js_set_cases) simp_all

lemma put_steps_trans: "put_steps A h2 h3 \<Longrightarrow> put_steps A h1 h2 \<Longrightarrow> put_steps A h1 h3"
  by (induction rule: put_steps.induct) (auto intro: put_steps.put_more)

lemma put_steps_mono: "put_steps A h h' \<Longrightarrow> A \<subseteq> B \<Longrightarrow> put_steps B h h'"
  by (induction rule: put_steps.induct) (auto intro: put_steps.intros)

lemma js_set_put_steps: "js_set b k v h = (r, h') \<Longrightarrow> addr_of b \<subseteq> A \<Longrightarrow> put_steps A h h'"
  by (erule js_set_cases) (auto intro: put_steps.intros)

lemma put_steps_invariant:
  assumes "put_steps A h h'" and "P h" and "\<And>a k v s. a \<in> A \<Longrightarrow> P s \<Longrightarrow> P (put_own a k v s)"
  shows "P h'"
  using assms(1,2) by (induction rule: put_steps.induct) (auto intro: assms(3))

lemma put_steps_length: "put_steps A h h' \<Longrightarrow> length (objs h') = length (objs h)"
  by (erule put_steps_invariant [where P = "\<lambda>s. length (objs s) = length (objs h)"]) simp_all

lemma own_props_of_put_own:
  "a \<notin> addr_of m \<Longrightarrow> own_props_of (put_own a k v h) m = own_props_of h m"
  by (cases m) (simp_all add: obj_at_def)

lemma put_steps_own_props:
  assumes "put_steps A h h'" and "addr_of m \<inter> A = {}"
  shows "own_props_of h' m = own_props_of h m"
proof (rule put_steps_invariant [OF assms(1), where P = "\<lambda>s. own_props_of s m = own_props_of h m"])
  fix a k v s assume "a \<in> A" and s: "own_props_of s m = own_props_of h m"
  with assms(2) have "a \<notin> addr_of m" by blast
  from own_props_of_put_own [OF this, of k v s] s
  show "own_props_of (put_own a k v s) m = own_props_of h m" by (rule trans)
qed simp

lemma enum_props_put_own: "enum_props h b \<Longrightarrow> enum_props (put_own a k v h) b"
proof (cases "b = a \<and> a < length (objs h)")
  case True
  assume "enum_props h b"
  with True show ?thesis
    by (auto simp: enum_props_def put_own_same new_data_prop_def intro: list_all_upd_or_append)
next
  case False
  assume "enum_props h b"
  with False show ?thesis by (auto simp: enum_props_def put_own_def)
qed

lemma heap_okD_proto:
  "heap_ok h \<Longrightarrow> a < length (objs h) \<Longrightarrow> (case proto (objs h ! a) of None \<Rightarrow> True | Some b \<Rightarrow> b < a)"
  by (drule (1) heap_okD) (simp add: obj_ok_def)

subsection \<open>Adequacy of the object model\<close>

text \<open>
  On every heap satisfying the invariant, the terminating prototype
  walk \<open>lookup_prop\<close> computes exactly the result of OrdinaryGet's unguarded walk,
  specified inductively by \<open>chain_prop\<close>: the guard on the prototype's address never
  cuts a chain short.
\<close>

lemma lookup_prop_refines_chain:
  assumes "heap_ok h"
  shows "chain_prop h a k r \<longleftrightarrow> a < length (objs h) \<and> r = lookup_prop h a k"
  using assms chain_prop_addr chain_prop_lookup lookup_prop_chain by blast

text \<open>
  On every heap satisfying the invariant, OrdinaryGet's unguarded
  loop returns, and returns what the guarded walk \<open>lookup_prop\<close> computes: the
  guard is never what makes the walk stop.
\<close>

lemma proto_walk_terminates:
  assumes "heap_ok h"
  shows "proto_walk h a k = Some (lookup_prop h a k)"
proof (induction a rule: less_induct)
  case (less a)
  show ?case
  proof (cases "a < length (objs h)")
    case False
    then show ?thesis by (simp add: proto_walk.simps [of h a k] lookup_prop.simps [of h a k] obj_at_def)
  next
    case True
    have "case proto (objs h ! a) of None \<Rightarrow> True | Some b \<Rightarrow> b < a"
      using heap_okD_proto [OF assms True] .
    with True less show ?thesis
      by (simp add: proto_walk.simps [of h a k] lookup_prop_in split: option.splits)
  qed
qed

text \<open>
  A property key is a canonical numeric index exactly when it is the
  decimal rendering of that number: printing then parsing gives the number back, and
  parsing succeeds only on printed numbers.
\<close>

lemma index_key_roundtrip: "canonical_index k = Some n \<longleftrightarrow> k = dec_string n"
  using canonical_index_Some canonical_index_dec_string by blast

end
