(* ===== verification/Assign.thy ===== *)
theory Assign
  imports JS_Heap
begin

text \<open>
  The \<open>Object.assign\<close> polyfill of \<open>src/src/applyMixin.js\<close>, lines 3--25, statement
  by statement: the TypeError on an \<open>undefined\<close> or \<open>null\<close> destination (line 8),
  \<open>Object(target)\<close> (line 11), the outer loop over the sources (lines 12--21) that
  skips \<open>undefined\<close> and \<open>null\<close> (line 14), the \<open>for-in\<close> enumeration of each source
  (line 15) filtered by a call of \<open>source.hasOwnProperty\<close> (line 16), and the strict
  assignment \<open>output[nextKey] = source[nextKey]\<close> (line 17). The polyfill is
  installed only when the host has no \<open>Object.assign\<close> (line 3); the model is the
  polyfill itself. A call of a user-defined \<open>hasOwnProperty\<close> is outside the model and
  ends the run with \<open>CallsUserCode\<close>.
\<close>

definition wrapper_obj :: "heap \<Rightarrow> val \<Rightarrow> obj" where
  "wrapper_obj h v = \<lparr>props = own_props_of h v, proto = proto_of h v, callable = False\<rparr>"

text \<open>\<open>Object(v)\<close>: an object is itself, a primitive gets a fresh wrapper.\<close>

definition to_object :: "val \<Rightarrow> (heap, addr) js" where
  "to_object v h =
     (case v of
        Ref a \<Rightarrow> (Inr a, h)
      | _ \<Rightarrow> if nullish v then new_object h else alloc (wrapper_obj h v) h)"

text \<open>
  The names a \<open>for-in\<close> loop visits: the enumerable own keys in property order, then
  those of each prototype that no object nearer on the chain has as a property.
\<close>

function proto_keys :: "heap \<Rightarrow> addr \<Rightarrow> key list \<Rightarrow> key list" where
  "proto_keys h a seen =
     (case obj_at h a of
        None \<Rightarrow> []
      | Some ob \<Rightarrow>
          filter (\<lambda>k. k \<notin> set seen) (enum_keys (props ob)) @
          (case proto ob of
             None \<Rightarrow> []
           | Some b \<Rightarrow> if b < a then proto_keys h b (seen @ map fst (props ob)) else []))"
  by pat_completeness auto
termination
  by (relation "measure (\<lambda>(h, a, seen). a)") auto

declare proto_keys.simps [simp del]

definition forin_keys :: "heap \<Rightarrow> val \<Rightarrow> key list" where
  "forin_keys h v =
     enum_keys (own_props_of h v) @
     (case proto_of h v of
        None \<Rightarrow> []
      | Some b \<Rightarrow> proto_keys h b (map fst (own_props_of h v)))"

text \<open>\<open>source.hasOwnProperty(nextKey)\<close>, line 16.\<close>

definition call_has_own :: "heap \<Rightarrow> val \<Rightarrow> key \<Rightarrow> js_error + bool" where
  "call_has_own h src k =
     (case get_value h src ''hasOwnProperty'' of
        Inl e \<Rightarrow> Inl e
      | Inr f \<Rightarrow>
          if f = Ref (has_own_fn (intrinsics h)) then Inr (k \<in> set (map fst (own_props_of h src)))
          else if is_function h f then Inl CallsUserCode
          else Inl TypeError)"

text \<open>The body of the inner loop, lines 16--18.\<close>

definition assign_key :: "addr \<Rightarrow> val \<Rightarrow> key \<Rightarrow> (heap, unit) js" where
  "assign_key out src k h =
     (case call_has_own h src k of
        Inl e \<Rightarrow> (Inl e, h)
      | Inr own \<Rightarrow>
          if own then
            (case get_value h src k of
               Inl e \<Rightarrow> (Inl e, h)
             | Inr v \<Rightarrow> js_set (Ref out) k v h)
          else (Inr (), h))"

text \<open>The inner loop \<open>for (var nextKey in source)\<close>, lines 15--19.\<close>

fun assign_keys :: "addr \<Rightarrow> val \<Rightarrow> key list \<Rightarrow> (heap, unit) js" where
  "assign_keys out src [] = js_return ()"
| "assign_keys out src (k # ks) = js_bind (assign_key out src k) (\<lambda>_. assign_keys out src ks)"

text \<open>One iteration of the outer loop, lines 13--20.\<close>

definition assign_source :: "addr \<Rightarrow> val \<Rightarrow> (heap, unit) js" where
  "assign_source out src h =
     (if nullish src then (Inr (), h) else assign_keys out src (forin_keys h src) h)"

text \<open>The outer loop over \<open>arguments[1..]\<close>, lines 12--21.\<close>

fun assign_sources :: "addr \<Rightarrow> val list \<Rightarrow> (heap, unit) js" where
  "assign_sources out [] = js_return ()"
| "assign_sources out (s # ss) = js_bind (assign_source out s) (\<lambda>_. assign_sources out ss)"

text \<open>The polyfilled \<open>Object.assign(target, ...sources)\<close>, lines 5--23.\<close>

definition object_assign :: "val \<Rightarrow> val list \<Rightarrow> (heap, val) js" where
  "object_assign target sources =
     (if nullish target then js_throw TypeError
      else js_bind (to_object target) (\<lambda>out.
           js_bind (assign_sources out sources) (\<lambda>_. js_return (Ref out))))"

section \<open>Lemmas\<close>

subsection \<open>Frames and the heap invariant\<close>

lemma assign_key_cases:
  assumes "assign_key out src k h = (r, h')"
  obtains (same) "h' = h"
  | (set) v where "get_value h src k = Inr v" and "js_set (Ref out) k v h = (r, h')"
  using assms by (auto simp: assign_key_def split: sum.splits if_splits)

lemma assign_key_frame: "assign_key out src k h = (r, h') \<Longrightarrow> heap_frame {(out, k)} h h'"
  by (erule assign_key_cases) (auto dest: js_set_frame)

lemma assign_keys_frame: "assign_keys out src ks h = (r, h') \<Longrightarrow> heap_frame ({out} \<times> set ks) h h'"
proof (induction ks arbitrary: h)
  case Nil
  then show ?case by simp
next
  case (Cons k ks)
  from Cons.prems show ?case
    unfolding assign_keys.simps
  proof (cases rule: js_bind_result_cases)
    case (fail e)
    then show ?thesis by (auto dest!: assign_key_frame intro: heap_frame_mono)
  next
    case (ok u h1)
    from ok(1) have "heap_frame {(out, k)} h h1" by (rule assign_key_frame)
    moreover from ok(2) have "heap_frame ({out} \<times> set ks) h1 h'" by (rule Cons.IH)
    ultimately show ?thesis by (auto dest: heap_frame_trans intro: heap_frame_mono)
  qed
qed

lemma assign_source_frame: "assign_source out src h = (r, h') \<Longrightarrow> heap_frame ({out} \<times> UNIV) h h'"
  by (auto simp: assign_source_def split: if_splits dest!: assign_keys_frame intro: heap_frame_mono)

lemma assign_sources_frame:
  "assign_sources out srcs h = (r, h') \<Longrightarrow> heap_frame ({out} \<times> UNIV) h h'"
proof (induction srcs arbitrary: h)
  case Nil
  then show ?case by simp
next
  case (Cons s ss)
  from Cons.prems show ?case
    unfolding assign_sources.simps
  proof (cases rule: js_bind_result_cases)
    case (fail e)
    then show ?thesis by (auto dest: assign_source_frame)
  next
    case (ok u h1)
    from ok(1) have "heap_frame ({out} \<times> UNIV) h h1" by (rule assign_source_frame)
    moreover from ok(2) have "heap_frame ({out} \<times> UNIV) h1 h'" by (rule Cons.IH)
    ultimately show ?thesis by (auto dest: heap_frame_trans)
  qed
qed

text \<open>
  C7 (error). \<open>Object.assign\<close> with an \<open>undefined\<close> or \<open>null\<close> destination
  throws a TypeError and performs no part of the merge.
\<close>

theorem object_assign_nullish: "nullish target \<Longrightarrow> object_assign target srcs h = (Inl TypeError, h)"
  by (simp add: object_assign_def)

lemma object_assign_Ref:
  "object_assign (Ref out) srcs h =
     (case assign_sources out srcs h of (Inl e, h') \<Rightarrow> (Inl e, h') | (Inr u, h') \<Rightarrow> (Inr (Ref out), h'))"
  by (simp add: object_assign_def nullish_def to_object_def js_bind_def split: prod.splits sum.splits)

lemma object_assign_Ref_frame:
  "object_assign (Ref out) srcs h = (r, h') \<Longrightarrow> heap_frame ({out} \<times> UNIV) h h'"
  by (auto simp: object_assign_Ref split: prod.splits sum.splits dest: assign_sources_frame)

lemma object_assign_Ref_result:
  "object_assign (Ref out) srcs h = (Inr v, h') \<Longrightarrow> v = Ref out"
  by (auto simp: object_assign_Ref split: prod.splits sum.splits)

text \<open>
  C8 (functional). An \<open>undefined\<close> or \<open>null\<close> source anywhere in the list of sources
  is skipped: the merge behaves exactly as without it.
\<close>

theorem assign_sources_skip_nullish:
  "nullish s \<Longrightarrow> assign_sources out (xs @ s # ys) = assign_sources out (xs @ ys)"
proof (induction xs)
  case Nil
  then have "assign_source out s = js_return ()" by (simp add: fun_eq_iff assign_source_def)
  then show ?case by simp
next
  case (Cons x xs)
  then show ?case by simp
qed


lemma obj_ok_wrapper:
  assumes "realm_ok h" and "\<not> nullish v" and "\<And>a. v \<noteq> Ref a"
  shows "obj_ok (Suc (length (objs h))) (length (objs h)) (wrapper_obj h v)"
proof (cases v)
  case (Str s)
  with assms(1) show ?thesis
    using distinct_string_own_props [of s] string_own_props_val_ok [of _ _ s]
    by (auto simp: obj_ok_def wrapper_obj_def realm_ok_def realm_below_def list_all_iff)
qed (use assms in \<open>auto simp: obj_ok_def wrapper_obj_def nullish_def realm_ok_def realm_below_def\<close>)

lemma heap_ok_to_object:
  assumes "heap_ok h" and "to_object v h = (r, h')"
  shows "heap_ok h'"
proof (cases "\<exists>a. v = Ref a")
  case True
  with assms show ?thesis by (auto simp: to_object_def)
next
  case False
  show ?thesis
  proof (cases "nullish v")
    case True
    with False assms show ?thesis
      by (auto simp: to_object_def nullish_def intro: heap_ok_new_object)
  next
    case nn: False
    have "obj_ok (Suc (length (objs h))) (length (objs h)) (wrapper_obj h v)"
      using heap_ok_realm [OF assms(1)] nn False by (intro obj_ok_wrapper) auto
    from heap_ok_alloc [OF assms(1) this] assms(2) nn False show ?thesis
      by (cases v) (auto simp: to_object_def)
  qed
qed

lemma to_object_frame: "to_object v h = (r, h') \<Longrightarrow> heap_frame {} h h'"
  by (auto simp: to_object_def split: val.splits if_splits
           dest: alloc_frame new_object_frame)

lemma heap_ok_assign_key:
  "heap_ok h \<Longrightarrow> val_ok (length (objs h)) src \<Longrightarrow> assign_key out src k h = (r, h') \<Longrightarrow> heap_ok h'"
  by (erule assign_key_cases [of out src k h r h']) (auto intro: heap_ok_js_set get_value_val_ok)

lemma heap_ok_assign_keys:
  "heap_ok h \<Longrightarrow> val_ok (length (objs h)) src \<Longrightarrow> assign_keys out src ks h = (r, h') \<Longrightarrow> heap_ok h'"
proof (induction ks arbitrary: h)
  case Nil
  then show ?case by simp
next
  case (Cons k ks)
  from Cons.prems(3) show ?case
    unfolding assign_keys.simps
  proof (cases rule: js_bind_result_cases)
    case (fail e)
    with Cons.prems(1,2) show ?thesis by (auto intro: heap_ok_assign_key)
  next
    case (ok u h1)
    have "heap_ok h1" using Cons.prems(1,2) ok(1) by (rule heap_ok_assign_key)
    moreover have "val_ok (length (objs h1)) src"
      using Cons.prems(2) heap_frame_length [OF assign_key_frame [OF ok(1)]] by (rule val_ok_mono)
    ultimately show ?thesis using ok(2) by (rule Cons.IH)
  qed
qed

lemma heap_ok_assign_sources:
  "heap_ok h \<Longrightarrow> list_all (val_ok (length (objs h))) srcs \<Longrightarrow> assign_sources out srcs h = (r, h') \<Longrightarrow>
   heap_ok h'"
proof (induction srcs arbitrary: h)
  case Nil
  then show ?case by simp
next
  case (Cons s ss)
  have step: "heap_ok h1" if "assign_source out s h = (q, h1)" for q h1
    using Cons.prems(1,2) that
    by (auto simp: assign_source_def split: if_splits intro: heap_ok_assign_keys)
  from Cons.prems(3) show ?case
    unfolding assign_sources.simps
  proof (cases rule: js_bind_result_cases)
    case (fail e)
    then show ?thesis by (auto intro: step)
  next
    case (ok u h1)
    have "list_all (val_ok (length (objs h1))) ss"
      using Cons.prems(2) heap_frame_length [OF assign_source_frame [OF ok(1)]]
      by (auto simp: list_all_iff intro: val_ok_mono)
    from step [OF ok(1)] this ok(2) show ?thesis by (rule Cons.IH)
  qed
qed

lemma heap_ok_object_assign:
  assumes "heap_ok h" and "list_all (val_ok (length (objs h))) srcs"
    and "object_assign target srcs h = (r, h')"
  shows "heap_ok h'"
proof (cases "nullish target")
  case True
  with assms show ?thesis by (simp add: object_assign_def)
next
  case False
  from assms(3) False obtain out h1 where to: "to_object target h = (Inr out, h1)"
    and rest: "js_bind (assign_sources out srcs) (\<lambda>_. js_return (Ref out)) h1 = (r, h')"
    by (auto simp: object_assign_def js_bind_def to_object_def alloc_def new_object_def
             split: prod.splits sum.splits val.splits if_splits)
  have h1: "heap_ok h1" using assms(1) to by (rule heap_ok_to_object)
  have "list_all (val_ok (length (objs h1))) srcs"
    using assms(2) heap_frame_length [OF to_object_frame [OF to]]
    by (auto simp: list_all_iff intro: val_ok_mono)
  with h1 rest show ?thesis
    by (auto simp: js_bind_def split: prod.splits sum.splits intro: heap_ok_assign_sources)
qed

lemma length_assign_keys: "assign_keys out src ks h = (r, h') \<Longrightarrow> length (objs h') = length (objs h)"
proof (induction ks arbitrary: h)
  case (Cons k ks)
  have step: "length (objs h1) = length (objs h)" if "assign_key out src k h = (q, h1)" for q h1
    using that by (rule assign_key_cases) (auto dest: length_js_set)
  from Cons.prems show ?case
    unfolding assign_keys.simps
  proof (cases rule: js_bind_result_cases)
    case (fail e)
    then show ?thesis by (auto dest: step)
  next
    case (ok u h1)
    then show ?thesis using step [OF ok(1)] Cons.IH [OF ok(2)] by simp
  qed
qed simp

lemma length_assign_sources:
  "assign_sources out srcs h = (r, h') \<Longrightarrow> length (objs h') = length (objs h)"
proof (induction srcs arbitrary: h)
  case (Cons s ss)
  have step: "length (objs h1) = length (objs h)" if "assign_source out s h = (q, h1)" for q h1
    using that by (auto simp: assign_source_def split: if_splits dest: length_assign_keys)
  from Cons.prems show ?case
    unfolding assign_sources.simps
  proof (cases rule: js_bind_result_cases)
    case (fail e)
    then show ?thesis by (auto dest: step)
  next
    case (ok u h1)
    then show ?thesis using step [OF ok(1)] Cons.IH [OF ok(2)] by simp
  qed
qed simp

lemma length_object_assign_Ref:
  "object_assign (Ref out) srcs h = (r, h') \<Longrightarrow> length (objs h') = length (objs h)"
  by (auto simp: object_assign_Ref split: prod.splits sum.splits dest: length_assign_sources)

subsection \<open>The copy is a run of own-property writes\<close>

lemma assign_key_put_steps: "assign_key out src k h = (r, h') \<Longrightarrow> put_steps {out} h h'"
  by (erule assign_key_cases) (auto intro: put_steps.put_none js_set_put_steps)

lemma assign_keys_put_steps: "assign_keys out src ks h = (r, h') \<Longrightarrow> put_steps {out} h h'"
proof (induction ks arbitrary: h)
  case (Cons k ks)
  from Cons.prems show ?case
    unfolding assign_keys.simps
  proof (cases rule: js_bind_result_cases)
    case (fail e)
    then show ?thesis by (blast intro: assign_key_put_steps)
  next
    case (ok u h1)
    from Cons.IH [OF ok(2)] assign_key_put_steps [OF ok(1)] show ?thesis by (rule put_steps_trans)
  qed
qed (auto intro: put_steps.put_none)

lemma assign_sources_put_steps: "assign_sources out srcs h = (r, h') \<Longrightarrow> put_steps {out} h h'"
proof (induction srcs arbitrary: h)
  case (Cons s ss)
  have step: "put_steps {out} h h1" if "assign_source out s h = (q, h1)" for q h1
    using that by (auto simp: assign_source_def split: if_splits intro: put_steps.put_none
        assign_keys_put_steps)
  from Cons.prems show ?case
    unfolding assign_sources.simps
  proof (cases rule: js_bind_result_cases)
    case (fail e)
    then show ?thesis by (blast intro: step)
  next
    case (ok u h1)
    from Cons.IH [OF ok(2)] step [OF ok(1)] show ?thesis by (rule put_steps_trans)
  qed
qed (auto intro: put_steps.put_none)

lemma object_assign_Ref_put_steps: "object_assign (Ref out) srcs h = (r, h') \<Longrightarrow> put_steps {out} h h'"
  by (auto simp: object_assign_Ref split: prod.splits sum.splits intro: assign_sources_put_steps)

text \<open>
  C9 (safety). \<open>Object.assign\<close> with an object destination changes nothing but the
  destination's own properties, allocates nothing, keeps the heap well-formed when the
  sources are values of the heap, and when it returns it returns the destination.
\<close>

theorem object_assign_Ref_effect:
  assumes "heap_ok h" and "list_all (val_ok (length (objs h))) srcs"
    and "object_assign (Ref out) srcs h = (r, h')"
  shows "heap_frame ({out} \<times> UNIV) h h' \<and> length (objs h') = length (objs h) \<and> heap_ok h' \<and>
         (\<forall>v. r = Inr v \<longrightarrow> v = Ref out)"
  using assms object_assign_Ref_frame [OF assms(3)] heap_ok_object_assign [OF assms]
        object_assign_Ref_result [of out srcs h _ h']
  by (auto simp: object_assign_Ref split: prod.splits sum.splits dest: length_assign_sources)

lemma call_has_own_uncallable:
  assumes "heap_ok h" and "get_value h s ''hasOwnProperty'' = Inr f" and "\<not> is_function h f"
  shows "call_has_own h s k = Inl TypeError"
proof -
  from assms(1) have "is_function h (Ref (has_own_fn (intrinsics h)))"
    by (simp add: heap_ok_def realm_ok_def realm_below_def obj_at_def)
  with assms(3) have "f \<noteq> Ref (has_own_fn (intrinsics h))" by blast
  with assms(2,3) show ?thesis by (simp add: call_has_own_def)
qed

text \<open>
  C27 (error). The polyfill calls \<open>source.hasOwnProperty\<close> (line 16) for every name the
  \<open>for-in\<close> loop visits: a source that has an enumerable name but whose
  \<open>hasOwnProperty\<close> is not a function (an \<open>Object.create(null)\<close> object, where it is
  \<open>undefined\<close>, or one that shadows it by a data member) makes the merge throw a
  TypeError before anything is copied, where the specification says the own enumerable
  keys of each source are copied.
\<close>

theorem object_assign_uncallable_has_own:
  assumes "heap_ok h" and "\<not> nullish s" and "forin_keys h s \<noteq> []"
    and "get_value h s ''hasOwnProperty'' = Inr f" and "\<not> is_function h f"
  shows "object_assign (Ref out) (s # ss) h = (Inl TypeError, h)"
proof -
  from assms(3) obtain k ks where ks: "forin_keys h s = k # ks" by (cases "forin_keys h s") auto
  have "assign_key out s k h = (Inl TypeError, h)"
    by (simp add: assign_key_def call_has_own_uncallable [OF assms(1,4,5)])
  with ks assms(2) have "assign_source out s h = (Inl TypeError, h)"
    by (simp add: assign_source_def js_bind_def)
  then show ?thesis by (simp add: object_assign_Ref js_bind_def)
qed

end
