(* ===== verification/JS_Reduce.thy ===== *)
theory JS_Reduce
  imports JS_Prelude
begin

text \<open>
  \<open>Array.prototype.reduce(callback, initial)\<close> over a dense array whose callback may
  throw and may change the state: the interface through which both functions of
  \<open>src/src/applyMixin.js\<close> are composed. \<open>applyMixin\<close> folds its per-key step over
  \<open>Object.keys(mixin)\<close> (line 36) and \<open>applyMixinBuilder\<close> folds \<open>applyMixin\<close> over
  its list of mixins (line 79). The generic lemmas here (composition over an
  appended list, invariants and frame relations lifted from one callback call to the
  whole fold, propagation of an exception with the state it left) are stated over an
  arbitrary callback and state type; each component discharges them for its own
  callback.
\<close>

fun js_reduce :: "('a \<Rightarrow> 'b \<Rightarrow> ('s, 'a) js) \<Rightarrow> 'b list \<Rightarrow> 'a \<Rightarrow> ('s, 'a) js" where
  "js_reduce f [] acc = js_return acc"
| "js_reduce f (x # xs) acc = js_bind (f acc x) (js_reduce f xs)"

lemma js_reduce_append:
  "js_reduce f (xs @ ys) acc = js_bind (js_reduce f xs acc) (js_reduce f ys)"
proof (induction xs arbitrary: acc)
  case Nil
  show ?case by (simp add: js_bind_def fun_eq_iff)
next
  case (Cons x xs)
  have "js_reduce f (xs @ ys) = (\<lambda>a. js_bind (js_reduce f xs a) (js_reduce f ys))"
    by (simp add: fun_eq_iff Cons.IH)
  then show ?case by (simp add: js_bind_assoc)
qed

lemma js_reduce_single: "js_reduce f [x] = (\<lambda>acc. f acc x)"
  by (simp add: fun_eq_iff js_bind_def split: prod.splits sum.splits)

lemma js_reduce_Cons_apply [js_simps]:
  "js_reduce f (x # xs) acc s =
     (case f acc x s of (Inl e, s') \<Rightarrow> (Inl e, s') | (Inr a, s') \<Rightarrow> js_reduce f xs a s')"
  by (simp add: js_bind_def)

text \<open>
  A property of states that every callback call keeps holds after the fold, whether
  the fold returns or throws; the calls may rely on a property of the accumulator
  that every returning call re-establishes.
\<close>

lemma js_reduce_invariant:
  assumes step: "\<And>acc x s r s'. x \<in> set xs \<Longrightarrow> A acc \<Longrightarrow> P s \<Longrightarrow> f acc x s = (r, s') \<Longrightarrow>
                   P s' \<and> (\<forall>a. r = Inr a \<longrightarrow> A a)"
    and acc: "A acc" and start: "P s" and run: "js_reduce f xs acc s = (r, s')"
  shows "P s'"
  using step acc start run
proof (induction xs arbitrary: acc s)
  case Nil
  then show ?case by simp
next
  case (Cons x xs)
  from Cons.prems(4) show ?case
    unfolding js_reduce.simps
  proof (cases rule: js_bind_result_cases)
    case (fail e)
    then show ?thesis using Cons.prems(1) [of x acc s "Inl e" s'] Cons.prems(2,3) by simp
  next
    case (ok a s1)
    with Cons.prems(1) [of x acc s "Inr a" s1] Cons.prems(2,3) have "P s1" and "A a" by simp_all
    have "\<And>y b t q t'. y \<in> set xs \<Longrightarrow> A b \<Longrightarrow> P t \<Longrightarrow> f b y t = (q, t') \<Longrightarrow>
            P t' \<and> (\<forall>a. q = Inr a \<longrightarrow> A a)"
      by (rule Cons.prems(1)) auto
    from Cons.IH [OF this \<open>A a\<close> \<open>P s1\<close> ok(2)] show ?thesis .
  qed
qed

text \<open>
  A reflexive and transitive relation between the states before and after every
  callback call (a frame condition) relates the states before and after the fold,
  under an invariant of accumulator and state that every returning call keeps.
\<close>

lemma js_reduce_rel:
  assumes refl: "\<And>s. R s s" and trans: "\<And>s1 s2 s3. R s1 s2 \<Longrightarrow> R s2 s3 \<Longrightarrow> R s1 s3"
    and step: "\<And>acc x s r s'. x \<in> set xs \<Longrightarrow> P acc s \<Longrightarrow> f acc x s = (r, s') \<Longrightarrow>
                 R s s' \<and> (\<forall>a. r = Inr a \<longrightarrow> P a s')"
    and start: "P acc s" and run: "js_reduce f xs acc s = (r, s')"
  shows "R s s'"
  using step start run
proof (induction xs arbitrary: acc s)
  case Nil
  then show ?case by (simp add: refl)
next
  case (Cons x xs)
  from Cons.prems(3) show ?case
    unfolding js_reduce.simps
  proof (cases rule: js_bind_result_cases)
    case (fail e)
    then show ?thesis using Cons.prems(1) [of x acc s "Inl e" s'] Cons.prems(2) by simp
  next
    case (ok a s1)
    with Cons.prems(1) [of x acc s "Inr a" s1] Cons.prems(2) have "R s s1" and "P a s1" by simp_all
    have "\<And>y b t q t'. y \<in> set xs \<Longrightarrow> P b t \<Longrightarrow> f b y t = (q, t') \<Longrightarrow>
            R t t' \<and> (\<forall>a. q = Inr a \<longrightarrow> P a t')"
      by (rule Cons.prems(1)) auto
    from Cons.IH [OF this \<open>P a s1\<close> ok(2)] \<open>R s s1\<close> show ?thesis by (rule trans [rotated])
  qed
qed

text \<open>A callback that always hands its accumulator on makes the fold return it.\<close>

lemma js_reduce_keeps_acc:
  assumes "\<And>x s r s'. x \<in> set xs \<Longrightarrow> f acc x s = (Inr r, s') \<Longrightarrow> r = acc"
    and "js_reduce f xs acc s = (Inr r, s')"
  shows "r = acc"
  using assms
proof (induction xs arbitrary: s)
  case Nil
  then show ?case by simp
next
  case (Cons x xs)
  from Cons.prems(2) show ?case
    unfolding js_reduce.simps
  proof (cases rule: js_bind_result_cases)
    case (ok a s1)
    with Cons.prems(1) have "a = acc" by auto
    with ok Cons.IH [of s1] Cons.prems(1) show ?thesis by auto
  qed simp
qed

text \<open>
  An exception thrown by the callback at one element ends the fold with that
  exception and the state the callback left: nothing is rolled back and no later
  element is processed.
\<close>

lemma js_reduce_throw:
  assumes "js_reduce f xs acc s = (Inr a, s1)" and "f a x s1 = (Inl e, s2)"
  shows "js_reduce f (xs @ x # ys) acc s = (Inl e, s2)"
  using assms by (simp add: js_reduce_append js_bind_def)

text \<open>A fold that returns returned at every element on the way.\<close>

lemma js_reduce_split_Inr:
  assumes "js_reduce f (xs @ x # ys) acc s = (Inr r, s')"
  obtains a s1 b s2 where "js_reduce f xs acc s = (Inr a, s1)" and "f a x s1 = (Inr b, s2)"
    and "js_reduce f ys b s2 = (Inr r, s')"
proof -
  from assms have "js_bind (js_reduce f xs acc) (js_reduce f (x # ys)) s = (Inr r, s')"
    by (simp add: js_reduce_append)
  then show ?thesis
  proof (cases rule: js_bind_result_cases)
    case (ok a s1)
    from ok(2) show ?thesis
      unfolding js_reduce.simps
    proof (cases rule: js_bind_result_cases)
      case (ok b s2)
      with \<open>js_reduce f xs acc s = (Inr a, s1)\<close> show ?thesis using that by blast
    qed simp
  qed simp
qed

text \<open>
  A fold whose callback does nothing at the elements outside \<open>S\<close> (in the states an
  invariant describes) is the fold over the elements of \<open>S\<close> alone.
\<close>

lemma js_reduce_skip_filter:
  assumes skip: "\<And>x s. I s \<Longrightarrow> x \<notin> S \<Longrightarrow> f () x s = (Inr (), s)"
    and same: "\<And>x s. I s \<Longrightarrow> x \<in> S \<Longrightarrow> f () x s = g () x s"
    and inv: "\<And>x s s'. I s \<Longrightarrow> x \<in> S \<Longrightarrow> g () x s = (Inr (), s') \<Longrightarrow> I s'"
    and start: "I s"
  shows "js_reduce f xs () s = js_reduce g (filter (\<lambda>x. x \<in> S) xs) () s"
  using start
proof (induction xs arbitrary: s)
  case Nil
  then show ?case by simp
next
  case (Cons x xs)
  show ?case
  proof (cases "x \<in> S")
    case True
    show ?thesis
    proof (cases "g () x s")
      case (Pair r s')
      with True Cons.prems show ?thesis
        by (cases r) (auto simp: js_bind_def same Cons.IH inv)
    qed
  next
    case False
    with Cons.prems show ?thesis by (simp add: js_bind_def skip Cons.IH)
  qed
qed

end
