(* ===== verification/ApplyMixin.thy ===== *)
theory ApplyMixin
  imports Assign JS_Reduce
begin

text \<open>
  \<open>applyMixin(target, mixin)\<close> of \<open>src/src/applyMixin.js\<close>, lines 33--71: a fold of
  a per-key step over \<open>Object.keys(mixin)\<close> with the target class as accumulator.
  The step is modelled statement by statement with JavaScript's evaluation order:
  for the key \<open>contextTypes\<close> (lines 38--45) a fresh \<open>{}\<close> is allocated, the
  target's and the mixin's \<open>contextTypes\<close> are read and merged into it with
  \<open>Object.assign\<close>, and the result is assigned to the target; for any other key the
  guard \<open>targetClass[key] || targetClass.prototype[key]\<close> (line 48) is evaluated
  with JavaScript truthiness and short-circuit, and when it is falsy the mixin's value
  is read (line 54) and assigned to \<open>targetClass.prototype\<close> (re-read, line 60) when
  it is a function (line 57), to the target itself otherwise (line 66).
\<close>

definition js_typeof_function :: "val \<Rightarrow> (heap, bool) js" where
  "js_typeof_function v h = (Inr (js_typeof h v = ''function''), h)"

text \<open>The \<open>contextTypes\<close> branch, lines 38--45.\<close>

definition merge_context_types :: "val \<Rightarrow> val \<Rightarrow> key \<Rightarrow> (heap, val) js" where
  "merge_context_types mixin targetClass key =
     js_bind new_object (\<lambda>fresh.
     js_bind (js_get targetClass key) (\<lambda>old.
     js_bind (js_get mixin key) (\<lambda>added.
     js_bind (object_assign (Ref fresh) [old, added]) (\<lambda>value.
     js_bind (js_set targetClass key value) (\<lambda>_.
     js_return targetClass)))))"

text \<open>Any other key, lines 47--69.\<close>

definition copy_member :: "val \<Rightarrow> val \<Rightarrow> key \<Rightarrow> (heap, val) js" where
  "copy_member mixin targetClass key =
     js_bind (js_get targetClass key) (\<lambda>on_class.
     if truthy on_class then js_return targetClass else
     js_bind (js_get targetClass ''prototype'') (\<lambda>class_proto.
     js_bind (js_get class_proto key) (\<lambda>on_proto.
     if truthy on_proto then js_return targetClass else
     js_bind (js_get mixin key) (\<lambda>value.
     js_bind (js_typeof_function value) (\<lambda>is_fun.
     if is_fun then
       js_bind (js_get targetClass ''prototype'') (\<lambda>class_proto'.
       js_bind (js_set class_proto' key value) (\<lambda>_.
       js_return targetClass))
     else
       js_bind (js_set targetClass key value) (\<lambda>_.
       js_return targetClass))))))"

text \<open>The reduce callback, lines 36--70.\<close>

definition mixin_step :: "val \<Rightarrow> val \<Rightarrow> key \<Rightarrow> (heap, val) js" where
  "mixin_step mixin targetClass key =
     (if key = ''contextTypes'' then merge_context_types mixin targetClass key
      else copy_member mixin targetClass key)"

definition apply_mixin :: "val \<Rightarrow> val \<Rightarrow> (heap, val) js" where
  "apply_mixin target mixin =
     js_bind (object_keys mixin) (\<lambda>keys. js_reduce (mixin_step mixin) keys target)"

section \<open>Lemmas\<close>

subsection \<open>One step of the fold\<close>

lemma copy_member_eq:
  "copy_member m tc key h =
     (case get_value h tc key of
        Inl e \<Rightarrow> (Inl e, h)
      | Inr a \<Rightarrow> if truthy a then (Inr tc, h) else
        (case get_value h tc ''prototype'' of
           Inl e \<Rightarrow> (Inl e, h)
         | Inr p \<Rightarrow>
           (case get_value h p key of
              Inl e \<Rightarrow> (Inl e, h)
            | Inr b \<Rightarrow> if truthy b then (Inr tc, h) else
              (case get_value h m key of
                 Inl e \<Rightarrow> (Inl e, h)
               | Inr v \<Rightarrow>
                   (case js_set (if is_function h v then p else tc) key v h of
                      (Inl e, h') \<Rightarrow> (Inl e, h')
                    | (Inr u, h') \<Rightarrow> (Inr tc, h'))))))"
  by (simp add: copy_member_def js_bind_def js_get_def js_typeof_function_def
           split: sum.splits prod.splits)

lemma copy_member_cases:
  assumes "copy_member m tc key h = (r, h')"
  shows "h' = h \<or>
    (\<exists>p v u. get_value h tc ''prototype'' = Inr p \<and> get_value h m key = Inr v \<and>
       js_set (if is_function h v then p else tc) key v h = (u, h'))"
  using assms unfolding copy_member_eq
  by (auto split: sum.splits prod.splits if_splits)

lemma copy_member_key_frame:
  "copy_member m tc key h = (r, h') \<Longrightarrow> heap_frame (UNIV \<times> {key}) h h'"
  by (auto dest!: copy_member_cases dest: js_set_frame intro: heap_frame_mono)

lemma copy_member_class_frame:
  assumes "get_value h tc ''prototype'' = Inr p" and "copy_member m tc key h = (r, h')"
  shows "heap_frame ((addr_of tc \<union> addr_of p) \<times> {key}) h h'"
  using copy_member_cases [OF assms(2)] assms(1)
  by (auto dest: js_set_frame intro: heap_frame_mono split: if_splits)


lemma merge_context_types_eq:
  "merge_context_types m tc key h =
     (case new_object h of
        (Inl e, h1) \<Rightarrow> (Inl e, h1)
      | (Inr fresh, h1) \<Rightarrow>
        (case get_value h1 tc key of
           Inl e \<Rightarrow> (Inl e, h1)
         | Inr old \<Rightarrow>
           (case get_value h1 m key of
              Inl e \<Rightarrow> (Inl e, h1)
            | Inr added \<Rightarrow>
              (case object_assign (Ref fresh) [old, added] h1 of
                 (Inl e, h2) \<Rightarrow> (Inl e, h2)
               | (Inr value, h2) \<Rightarrow>
                 (case js_set tc key value h2 of
                    (Inl e, h3) \<Rightarrow> (Inl e, h3)
                  | (Inr u, h3) \<Rightarrow> (Inr tc, h3))))))"
  by (simp add: merge_context_types_def js_bind_def js_get_def split: sum.splits prod.splits)

lemma merge_context_types_cases:
  assumes "merge_context_types m tc key h = (r, h')"
  obtains (early) h1 where "new_object h = (Inr (length (objs h)), h1)" and "h' = h1"
  | (assign) h1 old added q where "new_object h = (Inr (length (objs h)), h1)"
      and "get_value h1 tc key = Inr old" and "get_value h1 m key = Inr added"
      and "object_assign (Ref (length (objs h))) [old, added] h1 = (q, h')"
  | (store) h1 old added merged h2 u where "new_object h = (Inr (length (objs h)), h1)"
      and "get_value h1 tc key = Inr old" and "get_value h1 m key = Inr added"
      and "object_assign (Ref (length (objs h))) [old, added] h1 = (Inr merged, h2)"
      and "js_set tc key merged h2 = (u, h')"
proof -
  obtain h1 where n: "new_object h = (Inr (length (objs h)), h1)"
    by (simp add: new_object_def alloc_def)
  show ?thesis
    using assms n that unfolding merge_context_types_eq
    by (auto split: sum.splits prod.splits)
qed

lemma merge_context_types_frame:
  assumes "merge_context_types m tc key h = (r, h')"
  shows "heap_frame (addr_of tc \<times> {key}) h h'"
proof -
  have fresh: "heap_frame (addr_of tc \<times> {key}) h h'"
    if n: "new_object h = (Inr (length (objs h)), h1)"
      and a: "object_assign (Ref (length (objs h))) srcs h1 = (q, h2)"
      and s: "heap_frame W h2 h'" and w: "W \<subseteq> addr_of tc \<times> {key}" for h1 srcs q h2 W
  proof -
    have "heap_frame ({} \<union> {length (objs h)} \<times> UNIV) h h2"
      using new_object_frame [OF n] object_assign_Ref_frame [OF a] by (rule heap_frame_trans)
    from heap_frame_trans [OF this s] show ?thesis
      by (rule heap_frame_restrict) (use w in auto)
  qed
  from assms show ?thesis
  proof (cases rule: merge_context_types_cases)
    case (early h1)
    then show ?thesis using new_object_frame heap_frame_mono by blast
  next
    case (assign h1 old added q)
    then show ?thesis by (intro fresh [of h1 "[old, added]" q h' "{}"]) auto
  next
    case (store h1 old added merged h2 u)
    then show ?thesis by (intro fresh [of h1 "[old, added]" "Inr merged" h2 "addr_of tc \<times> {key}"])
                         (auto dest: js_set_frame)
  qed
qed


lemma mixin_step_key_frame:
  "mixin_step m tc key h = (r, h') \<Longrightarrow> heap_frame (UNIV \<times> {key}) h h'"
  by (auto simp: mixin_step_def split: if_splits
           dest: merge_context_types_frame copy_member_key_frame intro: heap_frame_mono)

lemma mixin_step_class_frame:
  "get_value h tc ''prototype'' = Inr p \<Longrightarrow> mixin_step m tc key h = (r, h') \<Longrightarrow>
   heap_frame ((addr_of tc \<union> addr_of p) \<times> {key}) h h'"
  by (auto simp: mixin_step_def split: if_splits
           dest: merge_context_types_frame copy_member_class_frame intro: heap_frame_mono)

lemma mixin_step_result: "mixin_step m tc key h = (Inr r, h') \<Longrightarrow> r = tc"
proof -
  assume run: "mixin_step m tc key h = (Inr r, h')"
  show "r = tc"
  proof (cases "key = ''contextTypes''")
    case True
    with run have "merge_context_types m tc key h = (Inr r, h')" by (simp add: mixin_step_def)
    then show ?thesis
      by (auto simp: merge_context_types_eq split: sum.splits prod.splits)
  next
    case False
    with run show ?thesis
      by (auto simp: mixin_step_def copy_member_eq split: sum.splits prod.splits if_splits)
  qed
qed

lemma mixin_step_keeps_proto:
  assumes "get_value h (Ref c) ''prototype'' = Inr (Ref p)" and "c < length (objs h)"
    and "mixin_step m (Ref c) key h = (r, h')"
  shows "get_value h' (Ref c) ''prototype'' = Inr (Ref p)"
proof (cases "key = ''prototype''")
  case True
  with assms(1,3) have "h' = h"
    by (auto simp: mixin_step_def copy_member_eq)
  with assms(1) show ?thesis by simp
next
  case False
  have "heap_frame (UNIV \<times> {key}) h h'" using assms(3) by (rule mixin_step_key_frame)
  with False assms(1,2) show ?thesis by (simp add: get_value_Ref_frame)
qed

lemma heap_ok_mixin_step:
  assumes ok: "heap_ok h" and m: "val_ok (length (objs h)) m" and tc: "val_ok (length (objs h)) tc"
    and run: "mixin_step m tc key h = (r, h')"
  shows "heap_ok h'"
proof (cases "key = ''contextTypes''")
  case False
  with run have "copy_member m tc key h = (r, h')" by (simp add: mixin_step_def)
  from copy_member_cases [OF this] ok m show ?thesis
    by (auto intro: heap_ok_js_set get_value_val_ok)
next
  case True
  with run have run': "merge_context_types m tc key h = (r, h')" by (simp add: mixin_step_def)
  have grow: "heap_ok h1 \<and> val_ok (length (objs h1)) m \<and> val_ok (length (objs h1)) tc \<and>
      length (objs h) < length (objs h1)"
    if "new_object h = (Inr (length (objs h)), h1)" for h1
    using that ok m tc heap_ok_new_object [OF ok that]
    by (auto simp: new_object_result intro: val_ok_mono)
  from run' show ?thesis
  proof (cases rule: merge_context_types_cases)
    case (early h1)
    with grow show ?thesis by simp
  next
    case (assign h1 old added q)
    note g = grow [OF assign(1)]
    have "list_all (val_ok (length (objs h1))) [old, added]"
      using g assign(2,3) get_value_val_ok by auto
    from heap_ok_object_assign [OF _ this assign(4)] g show ?thesis by simp
  next
    case (store h1 old added merged h2 u)
    note g = grow [OF store(1)]
    have "list_all (val_ok (length (objs h1))) [old, added]"
      using g store(2,3) get_value_val_ok by auto
    from heap_ok_object_assign [OF _ this store(4)] g have h2: "heap_ok h2" by simp
    have "merged = Ref (length (objs h))" using store(4) by (rule object_assign_Ref_result)
    moreover have "length (objs h1) \<le> length (objs h2)"
      using object_assign_Ref_frame [OF store(4)] by (rule heap_frame_length)
    ultimately have "val_ok (length (objs h2)) merged" using grow [OF store(1)] by simp
    from heap_ok_js_set [OF h2 this store(5)] show ?thesis .
  qed
qed

subsection \<open>The whole application\<close>

lemma apply_mixin_eq:
  "apply_mixin tc m h =
     (if nullish m then (Inl TypeError, h)
      else js_reduce (mixin_step m) (enum_keys (own_props_of h m)) tc h)"
  by (simp add: apply_mixin_def object_keys_def js_bind_def)

lemma mixin_fold_key_frame:
  assumes "js_reduce (mixin_step m) ks tc h = (r, h')"
  shows "heap_frame (UNIV \<times> set ks) h h'"
proof (rule js_reduce_rel [where P = "\<lambda>_ _. True" and R = "heap_frame (UNIV \<times> set ks)", OF _ _ _ _ assms])
  fix s1 s2 s3 assume "heap_frame (UNIV \<times> set ks) s1 s2" and "heap_frame (UNIV \<times> set ks) s2 s3"
  then show "heap_frame (UNIV \<times> set ks) s1 s3" using heap_frame_trans by fastforce
next
  fix acc x s q s'
  assume "x \<in> set ks" and "mixin_step m acc x s = (q, s')"
  then show "heap_frame (UNIV \<times> set ks) s s' \<and> (\<forall>a. q = Inr a \<longrightarrow> True)"
    by (auto dest: mixin_step_key_frame intro: heap_frame_mono)
qed simp_all

lemma mixin_fold_keeps_proto:
  assumes "c < length (objs h)" and "get_value h (Ref c) ''prototype'' = Inr (Ref p)"
    and "js_reduce (mixin_step m) ks (Ref c) h = (r, h')"
  shows "get_value h' (Ref c) ''prototype'' = Inr (Ref p)"
proof -
  let ?P = "\<lambda>s. c < length (objs s) \<and> get_value s (Ref c) ''prototype'' = Inr (Ref p)"
  have "?P h'"
  proof (rule js_reduce_invariant [where P = ?P and A = "\<lambda>a. a = Ref c", OF _ _ _ assms(3)])
    fix acc x s q s'
    assume "acc = Ref c" and P: "?P s" and step: "mixin_step m acc x s = (q, s')"
    with mixin_step_keeps_proto [of s c p m x q s'] heap_frame_length [OF mixin_step_key_frame [OF step]]
    show "?P s' \<and> (\<forall>a. q = Inr a \<longrightarrow> a = Ref c)"
      by (auto dest: mixin_step_result)
  qed (use assms in simp_all)
  then show ?thesis by simp
qed

lemma apply_mixin_key_frame:
  "apply_mixin tc m h = (r, h') \<Longrightarrow> heap_frame (UNIV \<times> set (enum_keys (own_props_of h m))) h h'"
  by (auto simp: apply_mixin_eq split: if_splits dest: mixin_fold_key_frame)

text \<open>
  C6 (frame). Applying a mixin to a class changes own properties of pre-existing objects
  only on the class and on its prototype, only at the mixin's own enumerable keys, and
  keeps every prototype link and callable flag, whether it returns or throws.
\<close>

theorem apply_mixin_class_frame:
  assumes "c < length (objs h)" and "get_value h (Ref c) ''prototype'' = Inr (Ref p)"
    and "apply_mixin (Ref c) m h = (r, h')"
  shows "heap_frame ({c, p} \<times> set (enum_keys (own_props_of h m))) h h'"
proof (cases "nullish m")
  case True
  with assms show ?thesis by (simp add: apply_mixin_eq)
next
  case False
  let ?W = "{c, p} \<times> set (enum_keys (own_props_of h m))"
  let ?P = "\<lambda>a s. a = Ref c \<and> c < length (objs s) \<and> get_value s (Ref c) ''prototype'' = Inr (Ref p)"
  from False assms(3) have run: "js_reduce (mixin_step m) (enum_keys (own_props_of h m)) (Ref c) h = (r, h')"
    by (simp add: apply_mixin_eq)
  show ?thesis
  proof (rule js_reduce_rel [where P = ?P and R = "heap_frame ?W", OF _ _ _ _ run])
    fix s1 s2 s3 assume "heap_frame ?W s1 s2" and "heap_frame ?W s2 s3"
    then show "heap_frame ?W s1 s3" using heap_frame_trans by fastforce
  next
    fix a x s q s'
    assume x: "x \<in> set (enum_keys (own_props_of h m))" and P: "?P a s"
      and step: "mixin_step m a x s = (q, s')"
    have fr: "heap_frame ((addr_of (Ref c) \<union> addr_of (Ref p)) \<times> {x}) s s'"
      using P step by (intro mixin_step_class_frame) auto
    then have "heap_frame ?W s s'" by (rule heap_frame_mono) (use x in auto)
    moreover have "?P b s'" if "q = Inr b" for b
      using P step that mixin_step_result [of m a x s b s'] mixin_step_keeps_proto [of s c p m x q s']
            heap_frame_length [OF fr] by auto
    ultimately show "heap_frame ?W s s' \<and> (\<forall>b. q = Inr b \<longrightarrow> ?P b s')" by blast
  qed (use assms in simp_all)
qed

lemma apply_mixin_result: "apply_mixin tc m h = (Inr r, h') \<Longrightarrow> r = tc"
  by (auto simp: apply_mixin_eq split: if_splits
           elim: js_reduce_keeps_acc [rotated] dest: mixin_step_result)

lemma heap_ok_apply_mixin:
  assumes "heap_ok h" and "val_ok (length (objs h)) m" and "val_ok (length (objs h)) tc"
    and "apply_mixin tc m h = (r, h')"
  shows "heap_ok h'"
proof (cases "nullish m")
  case True
  with assms show ?thesis by (simp add: apply_mixin_eq)
next
  case False
  let ?P = "\<lambda>s. heap_ok s \<and> val_ok (length (objs s)) m \<and> val_ok (length (objs s)) tc"
  from False assms(4) have run: "js_reduce (mixin_step m) (enum_keys (own_props_of h m)) tc h = (r, h')"
    by (simp add: apply_mixin_eq)
  have "?P h'"
  proof (rule js_reduce_invariant [where P = ?P and A = "\<lambda>a. a = tc", OF _ _ _ run])
    fix acc x s q s'
    assume A: "acc = tc" and P: "?P s" and step: "mixin_step m acc x s = (q, s')"
    have le: "length (objs s) \<le> length (objs s')"
      using mixin_step_key_frame [OF step] by (rule heap_frame_length)
    have "heap_ok s'" using P A step heap_ok_mixin_step by blast
    with P le A step show "?P s' \<and> (\<forall>a. q = Inr a \<longrightarrow> a = tc)"
      by (auto intro: val_ok_mono dest: mixin_step_result)
  qed (use assms in simp_all)
  then show ?thesis by simp
qed

text \<open>
  The per-key invariant behind the additive rule: while the fold runs, no own property
  named \<open>k\<close> of an object that existed before changes, as long as the class's own or
  inherited \<open>k\<close> is truthy or its prototype's is.
\<close>

lemma mixin_step_keeps_key:
  assumes fr: "heap_frame (UNIV \<times> - {k}) h0 s" and c: "c < length (objs h0)" and p: "p < length (objs h0)"
    and proto: "get_value s (Ref c) ''prototype'' = Inr (Ref p)"
    and k: "k \<noteq> ''contextTypes''"
    and a: "get_value h0 (Ref c) k = Inr a" and b: "get_value h0 (Ref p) k = Inr b"
    and guard: "truthy a \<or> truthy b"
    and step: "mixin_step m (Ref c) x s = (q, s')"
  shows "heap_frame (UNIV \<times> - {k}) h0 s'"
proof (cases "x = k")
  case True
  have "get_value s (Ref c) k = Inr a"
    using get_value_Ref_frame [OF fr c] a by auto
  moreover have "get_value s (Ref p) k = Inr b"
    using get_value_Ref_frame [OF fr p] b by auto
  ultimately have "s' = s"
    using proto guard True k step by (cases "truthy a") (auto simp: mixin_step_def copy_member_eq)
  with fr show ?thesis by simp
next
  case False
  from heap_frame_trans [OF fr mixin_step_key_frame [OF step]] show ?thesis
    by (rule heap_frame_mono) (use False in auto)
qed


lemma apply_mixin_keeps_key:
  assumes fr: "heap_frame (UNIV \<times> - {k}) h0 h" and c: "c < length (objs h0)"
    and p: "p < length (objs h0)"
    and proto: "get_value h (Ref c) ''prototype'' = Inr (Ref p)"
    and k: "k \<noteq> ''contextTypes''"
    and a: "get_value h0 (Ref c) k = Inr a" and b: "get_value h0 (Ref p) k = Inr b"
    and guard: "truthy a \<or> truthy b"
    and run: "apply_mixin (Ref c) m h = (r, h')"
  shows "heap_frame (UNIV \<times> - {k}) h0 h' \<and> get_value h' (Ref c) ''prototype'' = Inr (Ref p)"
proof (cases "nullish m")
  case True
  with run fr proto show ?thesis by (simp add: apply_mixin_eq)
next
  case False
  let ?P = "\<lambda>s. heap_frame (UNIV \<times> - {k}) h0 s \<and> c < length (objs s) \<and>
                  get_value s (Ref c) ''prototype'' = Inr (Ref p)"
  from False run have fold: "js_reduce (mixin_step m) (enum_keys (own_props_of h m)) (Ref c) h = (r, h')"
    by (simp add: apply_mixin_eq)
  have "?P h'"
  proof (rule js_reduce_invariant [where P = ?P and A = "\<lambda>a. a = Ref c", OF _ _ _ fold])
    fix acc x s q s'
    assume A: "acc = Ref c" and P: "?P s" and step: "mixin_step m acc x s = (q, s')"
    have "heap_frame (UNIV \<times> - {k}) h0 s'"
      using P c p k a b guard step A by (blast intro: mixin_step_keeps_key)
    with P A step mixin_step_keeps_proto [of s c p m x q s']
      heap_frame_length [OF mixin_step_key_frame [OF step]]
    show "?P s' \<and> (\<forall>a. q = Inr a \<longrightarrow> a = Ref c)"
      by (auto dest: mixin_step_result)
  qed (use fr c proto heap_frame_length in \<open>auto intro: order_less_le_trans\<close>)
  then show ?thesis by simp
qed

text \<open>
  C1 (additive only). Applying a mixin to a class whose own or inherited static member
  \<open>k\<close> is truthy, or whose prototype's \<open>k\<close> is truthy, changes no own property
  named \<open>k\<close> of any object that existed before, whether the application returns or
  throws (\<open>k\<close> other than \<open>contextTypes\<close>).
\<close>

theorem apply_mixin_keeps_defined:
  assumes ok: "heap_ok h" and c: "c < length (objs h)"
    and proto: "get_value h (Ref c) ''prototype'' = Inr (Ref p)"
    and k: "k \<noteq> ''contextTypes''"
    and a: "get_value h (Ref c) k = Inr a" and b: "get_value h (Ref p) k = Inr b"
    and guard: "truthy a \<or> truthy b"
    and run: "apply_mixin (Ref c) m h = (r, h')"
  shows "\<forall>x < length (objs h). map_of (props (objs h' ! x)) k = map_of (props (objs h ! x)) k"
proof -
  have p: "p < length (objs h)"
    using get_value_val_ok [OF ok _ proto] c by simp
  have "heap_frame (UNIV \<times> - {k}) h h'"
    using apply_mixin_keeps_key [OF heap_frame_refl c p proto k a b guard run] by simp
  then show ?thesis by (auto simp: heap_frame_def)
qed

text \<open>Where one fresh member of the mixin lands, when the application returns.\<close>

lemma apply_mixin_installs_at:
  assumes ok: "heap_ok h" and c: "c < length (objs h)"
    and proto: "get_value h (Ref c) ''prototype'' = Inr (Ref p)"
    and m: "val_ok (length (objs h)) m"
    and key: "k \<in> set (enum_keys (own_props_of h m))" and k: "k \<noteq> ''contextTypes''"
    and a: "get_value h (Ref c) k = Inr a" and na: "\<not> truthy a"
    and b: "get_value h (Ref p) k = Inr b" and nb: "\<not> truthy b"
    and v: "get_value h m k = Inr v"
    and run: "apply_mixin (Ref c) m h = (Inr r, h')"
  shows "map_option pval (map_of (props (objs h' ! (if is_function h v then p else c))) k) = Some v"
proof -
  let ?ks = "enum_keys (own_props_of h m)"
  have nn: "\<not> nullish m" using key by (cases m) (auto simp: nullish_def enum_keys_def)
  have p: "p < length (objs h)" using get_value_val_ok [OF ok _ proto] c by simp
  have dist: "distinct ?ks" using distinct_own_props_of [OF ok] by (rule distinct_enum_keys)
  obtain pre post where ks: "?ks = pre @ k # post" using key by (meson split_list)
  with dist have kpre: "k \<notin> set pre" and kpost: "k \<notin> set post" by auto
  from run nn have "js_reduce (mixin_step m) (pre @ k # post) (Ref c) h = (Inr r, h')"
    by (simp add: apply_mixin_eq ks)
  then obtain a1 h1 a2 h2 where pre: "js_reduce (mixin_step m) pre (Ref c) h = (Inr a1, h1)"
    and step: "mixin_step m a1 k h1 = (Inr a2, h2)"
    and post: "js_reduce (mixin_step m) post a2 h2 = (Inr r, h')"
    by (rule js_reduce_split_Inr)
  have a1: "a1 = Ref c"
    using pre by (rule js_reduce_keeps_acc [rotated]) (auto dest: mixin_step_result)
  have f1: "heap_frame (UNIV \<times> set pre) h h1" using pre by (rule mixin_fold_key_frame)
  have len1: "length (objs h) \<le> length (objs h1)" using f1 by (rule heap_frame_length)
  have proto1: "get_value h1 (Ref c) ''prototype'' = Inr (Ref p)"
    using c proto pre by (rule mixin_fold_keeps_proto)
  have a': "get_value h1 (Ref c) k = Inr a" using get_value_Ref_frame [OF f1 c] kpre a by auto
  have b': "get_value h1 (Ref p) k = Inr b" using get_value_Ref_frame [OF f1 p] kpre b by auto
  have v': "get_value h1 m k = Inr v"
    using get_value_frame [OF f1 _ m _] heap_ok_realm [OF ok] kpre v by (auto simp: realm_ok_def)
  have vok: "val_ok (length (objs h)) v" using get_value_val_ok [OF ok m v] .
  have fun': "is_function h1 v = is_function h v" using is_function_frame [OF f1 vok] .
  define t where "t = (if is_function h v then p else c)"
  have t: "t < length (objs h)" using c p by (simp add: t_def)
  from step a1 k a' na proto1 b' nb v' fun' obtain u where
    set: "js_set (Ref t) k v h1 = (Inr u, h2)"
    by (auto simp: mixin_step_def copy_member_eq t_def split: prod.splits sum.splits if_splits)
  then have h2: "h2 = put_own t k v h1" by (auto elim: js_set_cases)
  have at2: "map_option pval (map_of (props (objs h2 ! t)) k) = Some v"
    using t len1 by (simp add: h2 map_of_put_own new_data_prop_def split: option.splits)
  have f2: "heap_frame (UNIV \<times> set post) h2 h'" using post by (rule mixin_fold_key_frame)
  have "t < length (objs h2)" using t len1 h2 by simp
  with f2 kpost have "map_of (props (objs h' ! t)) k = map_of (props (objs h2 ! t)) k"
    by (auto simp: heap_frame_def)
  with at2 show ?thesis by (simp add: t_def)
qed

text \<open>
  C2 (placement). When neither the class nor its prototype has a truthy \<open>k\<close>, a
  successful application leaves the mixin's value of \<open>k\<close> as an own property of
  the prototype if the value is a function and of the class itself otherwise.
\<close>

theorem apply_mixin_installs:
  assumes ok: "heap_ok h" and c: "c < length (objs h)"
    and proto: "get_value h (Ref c) ''prototype'' = Inr (Ref p)"
    and m: "val_ok (length (objs h)) m"
    and key: "k \<in> set (enum_keys (own_props_of h m))" and k: "k \<noteq> ''contextTypes''"
    and a: "get_value h (Ref c) k = Inr a" and na: "\<not> truthy a"
    and b: "get_value h (Ref p) k = Inr b" and nb: "\<not> truthy b"
    and v: "get_value h m k = Inr v"
    and run: "apply_mixin (Ref c) m h = (Inr r, h')"
  shows "map_option pval (map_of (props (objs h' ! (if is_function h v then p else c))) k) = Some v"
  using assms by (rule apply_mixin_installs_at)

text \<open>
  C11 (error). \<open>Object.keys\<close> of an \<open>undefined\<close> or \<open>null\<close> mixin throws a TypeError
  before anything is changed.
\<close>

theorem apply_mixin_nullish_mixin:
  "nullish m \<Longrightarrow> apply_mixin tc m h = (Inl TypeError, h)"
  by (simp add: apply_mixin_eq)

subsection \<open>Allocation\<close>

lemma mixin_step_length:
  assumes "mixin_step m tc key h = (r, h')"
  shows "length (objs h') = length (objs h) + (if key = ''contextTypes'' then 1 else 0)"
proof (cases "key = ''contextTypes''")
  case True
  with assms have run: "merge_context_types m tc key h = (r, h')" by (simp add: mixin_step_def)
  have new: "new_object h = (Inr (length (objs h)), h1) \<Longrightarrow> length (objs h1) = Suc (length (objs h))"
    for h1 by (simp add: new_object_result)
  from run show ?thesis
  proof (cases rule: merge_context_types_cases)
    case (early h1)
    with True new show ?thesis by simp
  next
    case (assign h1 old added q)
    with True new show ?thesis by (simp add: length_object_assign_Ref)
  next
    case (store h1 old added merged h2 u)
    with True new show ?thesis by (simp add: length_object_assign_Ref length_js_set)
  qed
next
  case False
  with assms have "copy_member m tc key h = (r, h')" by (simp add: mixin_step_def)
  with False show ?thesis by (auto dest!: copy_member_cases dest: length_js_set)
qed

lemma mixin_fold_length:
  "js_reduce (mixin_step m) ks tc h = (r, h') \<Longrightarrow>
   length (objs h) \<le> length (objs h') \<and> length (objs h') \<le> length (objs h) + count_list ks ''contextTypes''"
proof (induction ks arbitrary: tc h)
  case (Cons k ks)
  from Cons.prems show ?case
    unfolding js_reduce.simps
  proof (cases rule: js_bind_result_cases)
    case (fail e)
    then show ?thesis by (simp add: mixin_step_length)
  next
    case (ok a h1)
    with Cons.IH [OF ok(2)] show ?thesis by (simp add: mixin_step_length split: if_splits)
  qed
qed simp

lemma apply_mixin_length:
  assumes "heap_ok h" and "apply_mixin tc m h = (r, h')"
  shows "length (objs h) \<le> length (objs h') \<and> length (objs h') \<le> Suc (length (objs h))"
proof (cases "nullish m")
  case True
  with assms(2) show ?thesis by (simp add: apply_mixin_eq)
next
  case False
  with assms(2) have run: "js_reduce (mixin_step m) (enum_keys (own_props_of h m)) tc h = (r, h')"
    by (simp add: apply_mixin_eq)
  have "count_list (enum_keys (own_props_of h m)) ''contextTypes'' \<le> 1"
    by (rule distinct_count_list_le [OF distinct_enum_keys [OF distinct_own_props_of [OF assms(1)]]])
  with mixin_fold_length [OF run] show ?thesis by simp
qed

text \<open>
  C16 (bounds). One application of a mixin allocates at most one object, the fresh
  \<open>{}\<close> of the \<open>contextTypes\<close> merge, whether it returns or throws:
  \<open>Object.keys\<close> lists \<open>contextTypes\<close> at most once and no other step allocates.
\<close>

theorem apply_mixin_alloc_bound:
  "heap_ok h \<Longrightarrow> apply_mixin tc m h = (r, h') \<Longrightarrow> length (objs h') \<le> Suc (length (objs h))"
  using apply_mixin_length by blast

end
