(* ===== verification/MixinBuilder.thy ===== *)
theory MixinBuilder
  imports ApplyMixin
begin

text \<open>
  \<open>applyMixinBuilder(...mixins)\<close> of \<open>src/src/applyMixin.js\<close>, lines 78--80: the
  decorator \<open>target => mixins.reduce(applyMixin, target)\<close>, a fold of
  \<open>applyMixin\<close> over the mixins from left to right.
\<close>

definition apply_mixin_builder :: "val list \<Rightarrow> val \<Rightarrow> (heap, val) js" where
  "apply_mixin_builder mixins = (\<lambda>target. js_reduce apply_mixin mixins target)"

text \<open>Line 82: the module's default export is the builder itself.\<close>

definition module_default :: "val list \<Rightarrow> val \<Rightarrow> (heap, val) js" where
  "module_default = apply_mixin_builder"

text \<open>The states a run of the decorator keeps: a well-formed heap holding its arguments.\<close>

definition builder_ok :: "val list \<Rightarrow> val \<Rightarrow> heap \<Rightarrow> bool" where
  "builder_ok ms target s =
     (heap_ok s \<and> list_all (val_ok (length (objs s))) ms \<and> val_ok (length (objs s)) target)"

section \<open>Lemmas\<close>

lemma builder_ok_step:
  assumes "x \<in> set ms" and "acc = target" and "builder_ok ms target s"
    and "apply_mixin acc x s = (q, s')"
  shows "builder_ok ms target s' \<and> (\<forall>a. q = Inr a \<longrightarrow> a = target)"
proof -
  have le: "length (objs s) \<le> length (objs s')"
    using apply_mixin_key_frame [OF assms(4)] by (rule heap_frame_length)
  have "heap_ok s'" using assms by (auto simp: builder_ok_def list_all_iff intro: heap_ok_apply_mixin)
  with assms le show ?thesis
    by (auto simp: builder_ok_def list_all_iff intro: val_ok_mono dest: apply_mixin_result)
qed

lemma apply_mixin_builder_Cons:
  "apply_mixin_builder (m # ms) target = js_bind (apply_mixin target m) (apply_mixin_builder ms)"
  by (simp add: apply_mixin_builder_def fun_eq_iff)

text \<open>
  C4 (equivalence). The specification's builder composition: the decorator applies
  \<open>applyMixin\<close> by hand to each mixin in list order, each time to the class the
  previous application returned, \<open>buildMixinApplier(M1, ..., Mn)(T)\<close> being
  \<open>applyMixin(... applyMixin(T, M1) ..., Mn)\<close>; an exception of any application
  ends the run.
\<close>

theorem apply_mixin_builder_sequential:
  "apply_mixin_builder ms target =
     foldl (\<lambda>run m. js_bind run (\<lambda>t. apply_mixin t m)) (js_return target) ms"
proof (induction ms rule: rev_induct)
  case Nil
  show ?case by (simp add: apply_mixin_builder_def fun_eq_iff)
next
  case (snoc m ms)
  have "apply_mixin_builder (ms @ [m]) target =
        js_bind (apply_mixin_builder ms target) (\<lambda>t. apply_mixin t m)"
    by (simp add: apply_mixin_builder_def js_reduce_append js_reduce_single)
  with snoc.IH show ?case by simp
qed

text \<open>
  C5 (no rollback). When a mixin throws, the decorator throws the same exception and the
  heap is the one the failing application left, with every earlier mixin's effects in
  place; no later mixin is applied.
\<close>

theorem apply_mixin_builder_throw:
  assumes "apply_mixin_builder ms target h = (Inr t, h1)" and "apply_mixin t m h1 = (Inl e, h2)"
  shows "apply_mixin_builder (ms @ m # rest) target h = (Inl e, h2)"
  using assms unfolding apply_mixin_builder_def by (rule js_reduce_throw)

text \<open>
  C10 (functional). A decorator that returns returns the very target it was given:
  every \<open>applyMixin\<close> and every step of it hands the class on unchanged.
\<close>

theorem apply_mixin_builder_result:
  "apply_mixin_builder ms target h = (Inr r, h') \<Longrightarrow> r = target"
  unfolding apply_mixin_builder_def
  by (erule js_reduce_keeps_acc [rotated]) (auto dest: apply_mixin_result)

text \<open>
  C3 (additive across mixins). However many mixins the decorator applies, a truthy
  member \<open>k\<close> of the class or of its prototype keeps every own property named
  \<open>k\<close> of every pre-existing object unchanged, whether the decorator returns or throws.
\<close>

theorem apply_mixin_builder_keeps_defined:
  assumes ok: "heap_ok h" and c: "c < length (objs h)"
    and proto: "get_value h (Ref c) ''prototype'' = Inr (Ref p)"
    and k: "k \<noteq> ''contextTypes''"
    and a: "get_value h (Ref c) k = Inr a" and b: "get_value h (Ref p) k = Inr b"
    and guard: "truthy a \<or> truthy b"
    and run: "apply_mixin_builder ms (Ref c) h = (r, h')"
  shows "\<forall>x < length (objs h). map_of (props (objs h' ! x)) k = map_of (props (objs h ! x)) k"
proof -
  have p: "p < length (objs h)"
    using get_value_val_ok [OF ok _ proto] c by simp
  let ?P = "\<lambda>s. heap_frame (UNIV \<times> - {k}) h s \<and> get_value s (Ref c) ''prototype'' = Inr (Ref p)"
  have "?P h'"
  proof (rule js_reduce_invariant [where P = ?P and A = "\<lambda>t. t = Ref c"])
    fix acc x s q s'
    assume A: "acc = Ref c" and P: "?P s" and step: "apply_mixin acc x s = (q, s')"
    from P A step have "?P s'"
      using apply_mixin_keeps_key [OF _ c p _ k a b guard] by blast
    with A step show "?P s' \<and> (\<forall>t. q = Inr t \<longrightarrow> t = Ref c)"
      by (auto dest: apply_mixin_result)
  qed (use run proto in \<open>simp_all add: apply_mixin_builder_def\<close>)
  then show ?thesis by (auto simp: heap_frame_def)
qed

text \<open>
  C17 (bounds). The decorator allocates at most one object per mixin, whether it
  returns or throws.
\<close>

theorem apply_mixin_builder_alloc_bound:
  assumes "builder_ok ms target h" and "apply_mixin_builder ms target h = (r, h')"
  shows "length (objs h') \<le> length (objs h) + length ms"
  using assms
proof (induction ms arbitrary: h)
  case Nil
  then show ?case by (simp add: apply_mixin_builder_def)
next
  case (Cons m ms)
  from Cons.prems(2) show ?case
    unfolding apply_mixin_builder_Cons
  proof (cases rule: js_bind_result_cases)
    case (fail e)
    with Cons.prems(1) show ?thesis by (auto simp: builder_ok_def dest: apply_mixin_length)
  next
    case (ok a h1)
    from builder_ok_step [OF _ refl Cons.prems(1) ok(1)] have "builder_ok (m # ms) target h1" "a = target"
      by simp_all
    then have "builder_ok ms target h1" by (simp add: builder_ok_def)
    with Cons.IH ok(2) \<open>a = target\<close> have "length (objs h') \<le> length (objs h1) + length ms" by blast
    moreover have "length (objs h1) \<le> Suc (length (objs h))"
      using Cons.prems(1) ok(1) by (auto simp: builder_ok_def dest: apply_mixin_length)
    ultimately show ?thesis by simp
  qed
qed


end
