(* ===== verification/Native_Assign.thy ===== *)
theory Native_Assign
  imports Assign JS_Reduce
begin

text \<open>
  The guard of line 3 of \<open>src/src/applyMixin.js\<close> installs the polyfill only when the
  host has no \<open>Object.assign\<close>; on every current host the call at line 40 runs the
  host's own \<open>Object.assign\<close> (ECMAScript, section Object.assign): \<open>ToObject(target)\<close>,
  then for each source that is not \<open>undefined\<close> or \<open>null\<close> its own keys in property
  order, each copied with \<open>Get\<close> and a strict \<open>Set\<close> when it is still an enumerable own
  property at its turn. This theory models that host function and the guard, proves
  that both branches of the guard compute the same result whenever the destination
  lies above every source in the heap (as the fresh \<open>{}\<close> of line 40 does) and every
  source reaches the built-in \<open>hasOwnProperty\<close>, and shows what the merge computes.
\<close>

text \<open>\<open>[[GetOwnProperty]]\<close> check, \<open>Get\<close> and \<open>Set\<close> for one key of a source.\<close>

definition native_assign_key :: "addr \<Rightarrow> val \<Rightarrow> key \<Rightarrow> (heap, unit) js" where
  "native_assign_key out src k h =
     (case map_of (own_props_of h src) k of
        Some p \<Rightarrow>
          if enumerable p then
            (case get_value h src k of
               Inl e \<Rightarrow> (Inl e, h)
             | Inr v \<Rightarrow> js_set (Ref out) k v h)
          else (Inr (), h)
      | None \<Rightarrow> (Inr (), h))"

fun native_assign_keys :: "addr \<Rightarrow> val \<Rightarrow> key list \<Rightarrow> (heap, unit) js" where
  "native_assign_keys out src [] = js_return ()"
| "native_assign_keys out src (k # ks) =
     js_bind (native_assign_key out src k) (\<lambda>_. native_assign_keys out src ks)"

text \<open>One source: its own keys in OrdinaryOwnPropertyKeys order, taken before the copy.\<close>

definition native_assign_source :: "addr \<Rightarrow> val \<Rightarrow> (heap, unit) js" where
  "native_assign_source out src h =
     (if nullish src then (Inr (), h)
      else native_assign_keys out src (ordered_keys (map fst (own_props_of h src))) h)"

fun native_assign_sources :: "addr \<Rightarrow> val list \<Rightarrow> (heap, unit) js" where
  "native_assign_sources out [] = js_return ()"
| "native_assign_sources out (s # ss) =
     js_bind (native_assign_source out s) (\<lambda>_. native_assign_sources out ss)"

definition native_assign :: "val \<Rightarrow> val list \<Rightarrow> (heap, val) js" where
  "native_assign target sources =
     (if nullish target then js_throw TypeError
      else js_bind (to_object target) (\<lambda>out.
           js_bind (native_assign_sources out sources) (\<lambda>_. js_return (Ref out))))"

text \<open>
  Line 3: \<open>if (typeof Object.assign != 'function')\<close> the polyfill is installed; the
  flag says whether the host provides \<open>Object.assign\<close>.
\<close>

definition assign_installed :: "bool \<Rightarrow> val \<Rightarrow> val list \<Rightarrow> (heap, val) js" where
  "assign_installed host_has_assign = (if host_has_assign then native_assign else object_assign)"

text \<open>
  The reference loop both implementations reduce to: copy every key of a list with
  \<open>Get\<close> and strict \<open>Set\<close>.
\<close>

definition copy_key :: "addr \<Rightarrow> val \<Rightarrow> key \<Rightarrow> (heap, unit) js" where
  "copy_key out src k h =
     (case get_value h src k of
        Inl e \<Rightarrow> (Inl e, h)
      | Inr v \<Rightarrow> js_set (Ref out) k v h)"

text \<open>
  The precondition of the polyfill's line 16: \<open>source.hasOwnProperty\<close> is the
  built-in function.
\<close>

definition builtin_has_own :: "heap \<Rightarrow> val \<Rightarrow> bool" where
  "builtin_has_own h v =
     (nullish v \<or> get_value h v ''hasOwnProperty'' = Inr (Ref (has_own_fn (intrinsics h))))"

text \<open>The keys a source has as enumerable own properties.\<close>

definition enum_own :: "heap \<Rightarrow> val \<Rightarrow> key set" where
  "enum_own h v = {k. \<exists>p. map_of (own_props_of h v) k = Some p \<and> enumerable p}"

text \<open>
  What \<open>Object.assign\<close> promises: the destination's own values, overwritten in turn
  by the enumerable own values of each source.
\<close>

definition own_values :: "heap \<Rightarrow> addr \<Rightarrow> key \<Rightarrow> val option" where
  "own_values h a k = map_option pval (map_of (props (objs h ! a)) k)"

definition own_enum_values :: "heap \<Rightarrow> val \<Rightarrow> key \<Rightarrow> val option" where
  "own_enum_values h v k =
     (case map_of (own_props_of h v) k of
        Some p \<Rightarrow> if enumerable p then Some (pval p) else None
      | None \<Rightarrow> None)"

definition assign_spec :: "heap \<Rightarrow> addr \<Rightarrow> val list \<Rightarrow> key \<Rightarrow> val option" where
  "assign_spec h out srcs = foldl (\<lambda>m s. m ++ own_enum_values h s) (own_values h out) srcs"

text \<open>A strict assignment of \<open>k\<close> to the object at \<open>a\<close> succeeds (the test of \<open>js_set\<close>).\<close>

definition assignable :: "heap \<Rightarrow> addr \<Rightarrow> key \<Rightarrow> bool" where
  "assignable h a k = (case lookup_prop h a k of None \<Rightarrow> True | Some p \<Rightarrow> writable p)"

text \<open>
  The setting of the claims below: a well-formed heap, a destination \<open>out\<close> above
  every address the sources read (all below \<open>n\<close>), and sources that reach the
  built-in \<open>hasOwnProperty\<close>.
\<close>

definition assign_pre :: "nat \<Rightarrow> addr \<Rightarrow> heap \<Rightarrow> val list \<Rightarrow> bool" where
  "assign_pre n out h srcs =
     (heap_ok h \<and> realm_below n (intrinsics h) \<and> n \<le> out \<and> out < length (objs h) \<and>
      list_all (val_ok n) srcs \<and> list_all (builtin_has_own h) srcs)"

text \<open>
  The states of one source's loop: only cells of the destination \<open>out\<close> have changed
  since the loop started in \<open>h0\<close>, and every address the source reads lies below \<open>n \<le> out\<close>.
\<close>

definition src_stable :: "nat \<Rightarrow> addr \<Rightarrow> heap \<Rightarrow> heap \<Rightarrow> bool" where
  "src_stable n out h0 h =
     (heap_frame ({out} \<times> UNIV) h0 h \<and> n \<le> out \<and> out < length (objs h0) \<and>
      realm_below n (intrinsics h0))"

section \<open>Lemmas\<close>

subsection \<open>The loops as folds\<close>

lemma js_bind_unit: "js_bind m (\<lambda>_. f ()) = js_bind m f"
  by (simp add: js_bind_def fun_eq_iff split: prod.splits sum.splits)

lemma assign_keys_reduce:
  "assign_keys out src ks = js_reduce (\<lambda>_ k. assign_key out src k) ks ()"
  by (induction ks) (simp_all add: js_bind_unit)

lemma native_assign_keys_reduce:
  "native_assign_keys out src ks = js_reduce (\<lambda>_ k. native_assign_key out src k) ks ()"
  by (induction ks) (simp_all add: js_bind_unit)

subsection \<open>Reads of a source below the destination\<close>

lemma own_props_map_frame:
  assumes "heap_frame W h h'" and "val_ok n v" and "n \<le> length (objs h)"
    and "\<forall>b < n. \<forall>k. (b, k) \<notin> W"
  shows "map_of (own_props_of h' v) = map_of (own_props_of h v)"
proof (cases v)
  case (Ref a)
  with assms(2,3) have a: "a < length (objs h)" by simp
  with heap_frame_length [OF assms(1)] have "a < length (objs h')" by simp
  with a Ref assms show ?thesis
    by (auto simp: obj_at_def fun_eq_iff intro: heap_frame_map_of)
qed simp_all

lemma src_stable_refl:
  "n \<le> out \<Longrightarrow> out < length (objs h) \<Longrightarrow> realm_below n (intrinsics h) \<Longrightarrow> src_stable n out h h"
  by (simp add: src_stable_def)

lemma src_stable_get:
  "src_stable n out h0 h \<Longrightarrow> val_ok n v \<Longrightarrow> get_value h v k = get_value h0 v k"
  unfolding src_stable_def by (rule get_value_frame) auto

lemma src_stable_own:
  "src_stable n out h0 h \<Longrightarrow> val_ok n v \<Longrightarrow> map_of (own_props_of h v) = map_of (own_props_of h0 v)"
  unfolding src_stable_def by (rule own_props_map_frame) auto

lemma src_stable_copy_key:
  assumes "src_stable n out h0 h" and "copy_key out src k h = (r, h')"
  shows "src_stable n out h0 h'"
proof -
  from assms(2) have "heap_frame ({out} \<times> {k}) h h'"
    by (auto simp: copy_key_def split: sum.splits dest: js_set_frame)
  with assms(1) have "heap_frame ({out} \<times> UNIV \<union> {out} \<times> {k}) h0 h'"
    unfolding src_stable_def by (blast intro: heap_frame_trans)
  then have "heap_frame ({out} \<times> UNIV) h0 h'" by (rule heap_frame_mono) blast
  with assms(1) show ?thesis by (simp add: src_stable_def)
qed

lemma own_keys_stable:
  "src_stable n out h0 h \<Longrightarrow> val_ok n v \<Longrightarrow>
   set (map fst (own_props_of h v)) = set (map fst (own_props_of h0 v))"
  by (metis dom_map_of_conv_image_fst set_map src_stable_own)

subsection \<open>One key in a stable state\<close>

lemma assign_key_stable:
  assumes st: "src_stable n out h0 h" and v: "val_ok n src" and nn: "\<not> nullish src"
    and bh: "builtin_has_own h0 src"
  shows "assign_key out src k h =
           (if k \<in> set (map fst (own_props_of h0 src)) then copy_key out src k h else (Inr (), h))"
proof -
  have "intrinsics h = intrinsics h0"
    using st by (auto simp: src_stable_def dest: heap_frame_intrinsics)
  with bh nn src_stable_get [OF st v, of "''hasOwnProperty''"] own_keys_stable [OF st v]
  have "call_has_own h src k = Inr (k \<in> set (map fst (own_props_of h0 src)))"
    by (simp add: call_has_own_def builtin_has_own_def)
  then show ?thesis by (simp add: assign_key_def copy_key_def)
qed

lemma native_assign_key_stable:
  assumes st: "src_stable n out h0 h" and v: "val_ok n src"
  shows "native_assign_key out src k h =
           (if k \<in> enum_own h0 src then copy_key out src k h else (Inr (), h))"
  using src_stable_own [OF st v]
  by (auto simp: native_assign_key_def copy_key_def enum_own_def split: option.splits)

subsection \<open>The keys each loop visits\<close>

lemma proto_keys_fresh: "k \<in> set (proto_keys h a seen) \<Longrightarrow> k \<notin> set seen"
proof (induction h a seen rule: proto_keys.induct)
  case (1 h a seen)
  show ?case
  proof (cases "obj_at h a")
    case None
    with "1.prems" show ?thesis by (simp add: proto_keys.simps)
  next
    case (Some ob)
    show ?thesis
    proof (cases "\<exists>b. proto ob = Some b \<and> b < a")
      case True
      then obtain b where b: "proto ob = Some b" "b < a" by blast
      have "proto_keys h a seen =
              filter (\<lambda>k. k \<notin> set seen) (enum_keys (props ob)) @
              proto_keys h b (seen @ map fst (props ob))"
        by (subst proto_keys.simps) (simp add: Some b)
      with "1.prems" "1.IH" [OF Some b(1) b(2)] show ?thesis by auto
    next
      case False
      then have "proto_keys h a seen = filter (\<lambda>k. k \<notin> set seen) (enum_keys (props ob))"
        by (subst proto_keys.simps) (auto simp: Some split: option.splits)
      with "1.prems" show ?thesis by simp
    qed
  qed
qed

lemma filter_forin_keys:
  "filter (\<lambda>k. k \<in> set (map fst (own_props_of h v))) (forin_keys h v) = enum_keys (own_props_of h v)"
proof -
  have own: "filter (\<lambda>k. k \<in> set (map fst (own_props_of h v))) (enum_keys (own_props_of h v)) =
             enum_keys (own_props_of h v)"
    by (rule filter_True) (auto simp: set_enum_keys)
  have "filter (\<lambda>k. k \<in> set (map fst (own_props_of h v))) (proto_keys h b (map fst (own_props_of h v))) = []"
    for b by (rule filter_False) (blast dest: proto_keys_fresh)
  with own show ?thesis by (simp add: forin_keys_def split: option.splits)
qed

lemma filter_enumerable_keys:
  "distinct (map fst ps) \<Longrightarrow>
   filter (\<lambda>k. \<exists>p. map_of ps k = Some p \<and> enumerable p) (map fst ps) =
   map fst (filter (\<lambda>(k, p). enumerable p) ps)"
proof (induction ps)
  case (Cons kp ps)
  obtain k p where kp: "kp = (k, p)" by fastforce
  with Cons.prems have "k \<notin> set (map fst ps)" and d: "distinct (map fst ps)" by simp_all
  then have "filter (\<lambda>k'. \<exists>q. map_of (kp # ps) k' = Some q \<and> enumerable q) (map fst ps) =
             filter (\<lambda>k'. \<exists>q. map_of ps k' = Some q \<and> enumerable q) (map fst ps)"
    by (auto simp: kp intro!: filter_cong)
  with Cons.IH [OF d] show ?case by (simp add: kp)
qed simp

lemma filter_ordered_own_keys:
  assumes "distinct (map fst (own_props_of h v))"
  shows "filter (\<lambda>k. k \<in> enum_own h v) (ordered_keys (map fst (own_props_of h v))) =
         enum_keys (own_props_of h v)"
proof -
  have "filter (\<lambda>k. k \<in> enum_own h v) (map fst (own_props_of h v)) =
        map fst (filter (\<lambda>(k, p). enumerable p) (own_props_of h v))"
    unfolding enum_own_def mem_Collect_eq by (rule filter_enumerable_keys [OF assms])
  then show ?thesis by (simp only: ordered_keys_filter enum_keys_def)
qed


subsection \<open>One source\<close>

lemma own_props_nullish: "nullish v \<Longrightarrow> own_props_of h v = []"
  by (cases v) (simp_all add: nullish_def)

lemma enum_keys_Nil [simp]: "enum_keys [] = []"
  by (simp add: enum_keys_def ordered_keys_def)

lemma assign_source_copy:
  assumes "n \<le> out" and "out < length (objs h)" and "realm_below n (intrinsics h)"
    and v: "val_ok n src" and bh: "builtin_has_own h src"
  shows "assign_source out src h =
           js_reduce (\<lambda>_ k. copy_key out src k) (enum_keys (own_props_of h src)) () h"
proof (cases "nullish src")
  case True
  then show ?thesis by (simp add: assign_source_def own_props_nullish)
next
  case False
  have st: "src_stable n out h h" using assms(1-3) by (rule src_stable_refl)
  have "assign_source out src h = js_reduce (\<lambda>_ k. assign_key out src k) (forin_keys h src) () h"
    using False by (simp add: assign_source_def assign_keys_reduce)
  also have "\<dots> = js_reduce (\<lambda>_ k. copy_key out src k)
                     (filter (\<lambda>k. k \<in> set (map fst (own_props_of h src))) (forin_keys h src)) () h"
    by (rule js_reduce_skip_filter [where I = "src_stable n out h"])
       (simp_all add: assign_key_stable [OF _ v False bh] st src_stable_copy_key)
  finally show ?thesis by (simp only: filter_forin_keys)
qed

lemma native_assign_source_copy:
  assumes "heap_ok h" and "n \<le> out" and "out < length (objs h)" and "realm_below n (intrinsics h)"
    and v: "val_ok n src"
  shows "native_assign_source out src h =
           js_reduce (\<lambda>_ k. copy_key out src k) (enum_keys (own_props_of h src)) () h"
proof (cases "nullish src")
  case True
  then show ?thesis by (simp add: native_assign_source_def own_props_nullish)
next
  case False
  have st: "src_stable n out h h" using assms(2-4) by (rule src_stable_refl)
  have "native_assign_source out src h =
          js_reduce (\<lambda>_ k. native_assign_key out src k) (ordered_keys (map fst (own_props_of h src))) () h"
    using False by (simp add: native_assign_source_def native_assign_keys_reduce)
  also have "\<dots> = js_reduce (\<lambda>_ k. copy_key out src k)
                     (filter (\<lambda>k. k \<in> enum_own h src) (ordered_keys (map fst (own_props_of h src)))) () h"
    by (rule js_reduce_skip_filter [where I = "src_stable n out h"])
       (simp_all add: native_assign_key_stable [OF _ v] st src_stable_copy_key)
  finally show ?thesis using distinct_own_props_of [OF assms(1)] by (simp only: filter_ordered_own_keys)
qed

lemma heap_ok_assign_source:
  "heap_ok h \<Longrightarrow> val_ok (length (objs h)) src \<Longrightarrow> assign_source out src h = (r, h') \<Longrightarrow> heap_ok h'"
  by (auto simp: assign_source_def split: if_splits intro: heap_ok_assign_keys)

lemma builtin_has_own_frame:
  assumes "heap_frame ({out} \<times> UNIV) h h'" and "n \<le> out" and "n \<le> length (objs h)"
    and "realm_below n (intrinsics h)" and "val_ok n v" and "builtin_has_own h v"
  shows "builtin_has_own h' v"
proof -
  have "get_value h' v ''hasOwnProperty'' = get_value h v ''hasOwnProperty''"
    using assms(1,4,5,3) by (rule get_value_frame) (use assms(2) in auto)
  with assms(1,6) show ?thesis by (simp add: builtin_has_own_def heap_frame_intrinsics)
qed

subsection \<open>The host function and the polyfill agree\<close>

lemma assign_pre_step:
  assumes pre: "assign_pre n out h (s # ss)" and run: "assign_source out s h = (r, h1)"
  shows "assign_pre n out h1 ss" and "src_stable n out h h1"
proof -
  have fr: "heap_frame ({out} \<times> UNIV) h h1" using run by (rule assign_source_frame)
  from pre have ok: "heap_ok h" and realm: "realm_below n (intrinsics h)" and no: "n \<le> out"
    and out: "out < length (objs h)" and v: "val_ok n s" and vs: "list_all (val_ok n) ss"
    and bs: "list_all (builtin_has_own h) ss"
    by (simp_all add: assign_pre_def)
  have n: "n \<le> length (objs h)" using no out by simp
  have "heap_ok h1" using ok val_ok_mono [OF v n] run by (rule heap_ok_assign_source)
  moreover have "realm_below n (intrinsics h1)" using realm fr by (simp add: heap_frame_intrinsics)
  moreover have "out < length (objs h1)" using out heap_frame_length [OF fr] by simp
  moreover have "list_all (builtin_has_own h1) ss"
    using bs vs by (auto simp: list_all_iff intro: builtin_has_own_frame [OF fr no n realm])
  ultimately show "assign_pre n out h1 ss" using no vs by (simp add: assign_pre_def)
  show "src_stable n out h h1" using fr no out realm by (simp add: src_stable_def)
qed

lemma native_assign_sources_eq:
  "assign_pre n out h srcs \<Longrightarrow> native_assign_sources out srcs h = assign_sources out srcs h"
proof (induction srcs arbitrary: h)
  case Nil
  then show ?case by simp
next
  case (Cons s ss)
  from Cons.prems have ok: "heap_ok h" and realm: "realm_below n (intrinsics h)" and no: "n \<le> out"
    and out: "out < length (objs h)" and v: "val_ok n s" and bh: "builtin_has_own h s"
    by (simp_all add: assign_pre_def)
  have first: "native_assign_source out s h = assign_source out s h"
    using native_assign_source_copy [OF ok no out realm v] assign_source_copy [OF no out realm v bh]
    by simp
  show ?case
  proof (cases "assign_source out s h")
    case (Pair r h1)
    with Cons.prems have "native_assign_sources out ss h1 = assign_sources out ss h1"
      by (blast intro: Cons.IH assign_pre_step)
    with Pair first show ?thesis by (simp add: js_bind_def split: sum.splits)
  qed
qed

subsection \<open>What the copy loop computes\<close>

lemma copy_key_Inr:
  assumes "copy_key out src k h = (Inr u, h')"
  obtains v where "get_value h src k = Inr v" and "h' = put_own out k v h"
    and "assignable h out k"
  using assms by (auto simp: copy_key_def assignable_def split: sum.splits elim: js_set_cases)

lemma own_values_put_own:
  "out < length (objs h) \<Longrightarrow> own_values (put_own out k v h) out = (own_values h out)(k \<mapsto> v)"
  by (auto simp: own_values_def map_of_put_own fun_eq_iff new_data_prop_def split: option.splits)

lemma map_add_restrict_insert:
  "f k = Some v \<Longrightarrow> m ++ (f |` insert k K) = (m(k \<mapsto> v)) ++ (f |` K)"
  by (auto simp: fun_eq_iff map_add_def restrict_map_def split: option.splits)

lemma dom_own_enum_values: "dom (own_enum_values h v) = enum_own h v"
  by (auto simp: own_enum_values_def enum_own_def split: option.splits if_splits)

lemma set_enum_keys_own:
  "distinct (map fst (own_props_of h v)) \<Longrightarrow> set (enum_keys (own_props_of h v)) = enum_own h v"
  by (force simp: set_enum_keys enum_own_def)

lemma copy_keys_values:
  assumes "src_stable n out h0 h" and "val_ok n src" and "\<not> nullish src"
    and "set ks \<subseteq> enum_own h0 src"
    and "js_reduce (\<lambda>_ k. copy_key out src k) ks () h = (Inr u, h')"
  shows "own_values h' out = own_values h out ++ (own_enum_values h0 src |` set ks)"
  using assms
proof (induction ks arbitrary: h)
  case Nil
  then show ?case by simp
next
  case (Cons k ks)
  from Cons.prems(5) obtain h1 where c: "copy_key out src k h = (Inr (), h1)"
    and rest: "js_reduce (\<lambda>_ k. copy_key out src k) ks () h1 = (Inr u, h')"
    by (auto simp: js_bind_def split: prod.splits sum.splits)
  from c obtain v where gv: "get_value h src k = Inr v" and h1: "h1 = put_own out k v h"
    by (rule copy_key_Inr)
  have st1: "src_stable n out h0 h1" using Cons.prems(1) c by (rule src_stable_copy_key)
  from Cons.prems(4) obtain p where p: "map_of (own_props_of h0 src) k = Some p" "enumerable p"
    by (auto simp: enum_own_def)
  with gv src_stable_get [OF Cons.prems(1,2)] get_value_own [OF Cons.prems(3)]
  have "own_enum_values h0 src k = Some v" by (simp add: own_enum_values_def)
  moreover have "out < length (objs h)"
    using Cons.prems(1) heap_frame_length by (fastforce simp: src_stable_def)
  moreover note Cons.IH [OF st1 Cons.prems(2,3) _ rest] Cons.prems(4)
  ultimately show ?case by (simp add: h1 own_values_put_own map_add_restrict_insert fun_upd_def)
qed

subsection \<open>What the polyfill computes, and when it returns\<close>

lemma own_enum_values_stable:
  "src_stable n out h0 h \<Longrightarrow> val_ok n v \<Longrightarrow> own_enum_values h v = own_enum_values h0 v"
  by (simp add: own_enum_values_def fun_eq_iff src_stable_own)

lemma assign_pre_parts:
  assumes "assign_pre n out h (src # ss)"
  shows "heap_ok h" and "n \<le> out" and "out < length (objs h)" and "realm_below n (intrinsics h)"
    and "val_ok n src" and "builtin_has_own h src"
  using assms by (simp_all add: assign_pre_def)

lemma assign_source_values:
  assumes pre: "assign_pre n out h (src # ss)" and run: "assign_source out src h = (Inr u, h')"
  shows "own_values h' out = own_values h out ++ own_enum_values h src"
proof (cases "nullish src")
  case True
  then have "own_enum_values h src = Map.empty"
    by (simp add: fun_eq_iff own_enum_values_def own_props_nullish)
  with True run show ?thesis by (simp add: assign_source_def)
next
  case False
  note parts = assign_pre_parts [OF pre]
  have keys: "set (enum_keys (own_props_of h src)) = enum_own h src"
    using distinct_own_props_of [OF parts(1)] by (rule set_enum_keys_own)
  from run assign_source_copy [OF parts(2-6)]
  have "js_reduce (\<lambda>_ k. copy_key out src k) (enum_keys (own_props_of h src)) () h = (Inr u, h')"
    by simp
  from copy_keys_values [OF src_stable_refl [OF parts(2-4)] parts(5) False _ this] keys
  show ?thesis by (simp add: dom_own_enum_values [symmetric])
qed

lemma assign_sources_values:
  "assign_pre n out h srcs \<Longrightarrow> assign_sources out srcs h = (Inr u, h') \<Longrightarrow>
   own_values h' out = foldl (\<lambda>m s. m ++ own_enum_values h s) (own_values h out) srcs"
proof (induction srcs arbitrary: h)
  case Nil
  then show ?case by simp
next
  case (Cons s ss)
  from Cons.prems(2) obtain u1 h1 where first: "assign_source out s h = (Inr u1, h1)"
    and rest: "assign_sources out ss h1 = (Inr u, h')"
    by (auto simp: js_bind_def split: prod.splits sum.splits)
  have pre1: "assign_pre n out h1 ss" and st: "src_stable n out h h1"
    using Cons.prems(1) first by (rule assign_pre_step)+
  have same: "own_enum_values h1 s' = own_enum_values h s'" if "s' \<in> set ss" for s'
    using pre1 st that by (auto simp: assign_pre_def list_all_iff intro: own_enum_values_stable)
  have "own_values h' out = foldl (\<lambda>m s. m ++ own_enum_values h1 s) (own_values h1 out) ss"
    using pre1 rest by (rule Cons.IH)
  also have "\<dots> = foldl (\<lambda>m s. m ++ own_enum_values h s) (own_values h1 out) ss"
    by (rule foldl_cong) (simp_all add: same)
  finally show ?case using assign_source_values [OF Cons.prems(1) first] by simp
qed

text \<open>An own-property write anywhere keeps every assignment that succeeded possible.\<close>

lemma assignable_put_own:
  "assignable h b k \<Longrightarrow> assignable (put_own a k' v h) b k"
proof (induction h b k rule: lookup_prop.induct)
  case (1 h b k)
  let ?h' = "put_own a k' v h"
  show ?case
  proof (cases "b < length (objs h)")
    case False
    then show ?thesis by (simp add: assignable_def lookup_prop_out)
  next
    case b: True
    show ?thesis
    proof (cases "k = k'")
      case False
      then have "lookup_prop ?h' b k = lookup_prop h b k"
        using b by (intro lookup_prop_frame [OF put_own_frame]) auto
      with "1.prems" show ?thesis by (simp add: assignable_def)
    next
      case True
      show ?thesis
      proof (cases "b = a")
        case True
        with b \<open>k = k'\<close> "1.prems" show ?thesis
          by (auto simp: assignable_def lookup_prop_in map_of_put_own new_data_prop_def
              split: option.splits)
      next
        case ba: False
        have own: "map_of (props (objs ?h' ! b)) k = map_of (props (objs h ! b)) k"
          and pr: "proto (objs ?h' ! b) = proto (objs h ! b)"
          using ba by simp_all
        show ?thesis
        proof (cases "map_of (props (objs h ! b)) k")
          case (Some p)
          with b own "1.prems" show ?thesis by (simp add: assignable_def lookup_prop_in)
        next
          case None
          show ?thesis
          proof (cases "proto (objs h ! b)")
            case (Some b')
            show ?thesis
            proof (cases "b' < b")
              case True
              have "assignable h b' k"
                using "1.prems" b None Some True by (simp add: assignable_def lookup_prop_in)
              then have "assignable ?h' b' k"
                using "1.IH" [of "objs h ! b" b'] b None Some True by (simp add: obj_at_def)
              with b own pr None Some True show ?thesis by (simp add: assignable_def lookup_prop_in)
            qed (use b own pr None Some in \<open>simp add: assignable_def lookup_prop_in\<close>)
          qed (use b own pr None in \<open>simp add: assignable_def lookup_prop_in\<close>)
        qed
      qed
    qed
  qed
qed

lemma copy_keys_return:
  assumes "\<not> nullish src" and "out < length (objs h)" and "\<forall>k \<in> K. assignable h out k"
    and "set ks \<subseteq> K"
  shows "\<exists>h'. js_reduce (\<lambda>_ k. copy_key out src k) ks () h = (Inr (), h') \<and>
              (\<forall>k \<in> K. assignable h' out k)"
  using assms(2-4)
proof (induction ks arbitrary: h)
  case Nil
  then show ?case by simp
next
  case (Cons k ks)
  obtain v where v: "get_value h src k = Inr v" using assms(1) by (simp add: get_value_def)
  have run: "copy_key out src k h = (Inr (), put_own out k v h)"
    using Cons.prems(2,3) v by (simp add: copy_key_def assignable_def js_set_Ref_writable)
  have "out < length (objs (put_own out k v h))" using Cons.prems(1) by (simp add: length_put_own)
  moreover have "\<forall>k' \<in> K. assignable (put_own out k v h) out k'"
    using Cons.prems(1,2) by (simp add: assignable_put_own)
  ultimately show ?case using Cons.IH Cons.prems(3) run by (simp add: js_bind_def)
qed

lemma enum_own_stable: "src_stable n out h0 h \<Longrightarrow> val_ok n v \<Longrightarrow> enum_own h v = enum_own h0 v"
  by (simp add: enum_own_def src_stable_own)

lemma assign_source_return:
  assumes pre: "assign_pre n out h (s # ss)" and K: "\<forall>k \<in> K. assignable h out k"
    and sub: "enum_own h s \<subseteq> K"
  shows "\<exists>h1. assign_source out s h = (Inr (), h1) \<and> (\<forall>k \<in> K. assignable h1 out k)"
proof (cases "nullish s")
  case True
  with K show ?thesis by (simp add: assign_source_def)
next
  case False
  note parts = assign_pre_parts [OF pre]
  have "set (enum_keys (own_props_of h s)) \<subseteq> K"
    using set_enum_keys_own [OF distinct_own_props_of [OF parts(1)]] sub by simp
  from copy_keys_return [OF False parts(3) K this] assign_source_copy [OF parts(2-6)]
  show ?thesis by simp
qed

lemma assign_sources_return:
  "assign_pre n out h srcs \<Longrightarrow> \<forall>k \<in> K. assignable h out k \<Longrightarrow> \<forall>s \<in> set srcs. enum_own h s \<subseteq> K \<Longrightarrow>
   \<exists>h'. assign_sources out srcs h = (Inr (), h')"
proof (induction srcs arbitrary: h)
  case Nil
  then show ?case by simp
next
  case (Cons s ss)
  from assign_source_return [OF Cons.prems(1,2)] Cons.prems(3)
  obtain h1 where first: "assign_source out s h = (Inr (), h1)" and K1: "\<forall>k \<in> K. assignable h1 out k"
    by auto
  have pre1: "assign_pre n out h1 ss" and st: "src_stable n out h h1"
    using Cons.prems(1) first by (rule assign_pre_step)+
  have "\<forall>s' \<in> set ss. enum_own h1 s' \<subseteq> K"
    using Cons.prems(3) pre1 st by (auto simp: assign_pre_def list_all_iff enum_own_stable)
  from Cons.IH [OF pre1 K1 this] first show ?case by (auto simp: js_bind_def)
qed

lemma assign_installed_Ref:
  "assign_pre n out h srcs \<Longrightarrow>
   assign_installed True (Ref out) srcs h = assign_installed False (Ref out) srcs h"
  using native_assign_sources_eq
  by (simp add: assign_installed_def native_assign_def object_assign_def nullish_def to_object_def
      js_bind_def)

lemma object_assign_values:
  assumes "assign_pre n out h srcs" and "object_assign (Ref out) srcs h = (Inr r, h')"
  shows "own_values h' out = assign_spec h out srcs"
  using assms(2) assign_sources_values [OF assms(1)]
  by (auto simp: object_assign_Ref assign_spec_def split: prod.splits sum.splits)

text \<open>
  C14 (refinement). When the polyfill returns, the destination's own values are its
  old own values overwritten, source by source in argument order, by each source's
  enumerable own values: the specification \<open>assign_spec\<close> of \<open>Object.assign\<close>.
\<close>

theorem object_assign_merges:
  assumes "assign_pre n out h srcs" and "object_assign (Ref out) srcs h = (Inr r, h')"
  shows "own_values h' out = assign_spec h out srcs"
  using assms by (rule object_assign_values)

text \<open>
  C15 (liveness). The polyfill does return, with its destination, when every key it
  will copy can be assigned on the destination (no non-writable property of that name
  on the destination or its prototype chain).
\<close>

theorem object_assign_returns:
  assumes "assign_pre n out h srcs"
    and "list_all (\<lambda>s. list_all (assignable h out) (enum_keys (own_props_of h s))) srcs"
  shows "\<exists>h'. object_assign (Ref out) srcs h = (Inr (Ref out), h')"
proof -
  let ?K = "\<Union>s \<in> set srcs. enum_own h s"
  have ok: "heap_ok h" using assms(1) by (simp add: assign_pre_def)
  have keys: "set (enum_keys (own_props_of h s)) = enum_own h s" for s
    using distinct_own_props_of [OF ok] by (rule set_enum_keys_own)
  have "\<forall>k \<in> ?K. assignable h out k" using assms(2) by (auto simp: list_all_iff keys [symmetric])
  from assign_sources_return [OF assms(1) this] obtain h' where "assign_sources out srcs h = (Inr (), h')"
    by blast
  then show ?thesis by (simp add: object_assign_Ref)
qed

text \<open>
  C12 (equivalence). Both branches of the guard of line 3 compute the same
  \<open>Object.assign(out, ...srcs)\<close>, result and heap, when the destination lies above
  every source and every source reaches the built-in \<open>hasOwnProperty\<close>: the
  polyfill's \<open>for-in\<close> with its \<open>hasOwnProperty\<close> filter visits exactly the
  enumerable own keys, in the order the host function visits them.
\<close>

theorem assign_installed_agree:
  assumes "assign_pre n out h srcs"
  shows "assign_installed True (Ref out) srcs h = assign_installed False (Ref out) srcs h"
  using assms by (rule assign_installed_Ref)

text \<open>
  C13 (equivalence). Line 40, \<open>Object.assign({}, targetClass[key], mixin[key])\<close>,
  computes the same result and heap whether the host's \<open>Object.assign\<close> or the
  polyfill is installed, for old and added \<open>contextTypes\<close> values of a well-formed
  heap that reach the built-in \<open>hasOwnProperty\<close>; modelling line 40 by the polyfill
  loses nothing there.
\<close>

theorem context_types_merge_host_independent:
  assumes "heap_ok h" and "val_ok (length (objs h)) old" and "val_ok (length (objs h)) added"
    and "builtin_has_own h old" and "builtin_has_own h added"
  shows "js_bind new_object (\<lambda>fresh. assign_installed True (Ref fresh) [old, added]) h =
         js_bind new_object (\<lambda>fresh. assign_installed False (Ref fresh) [old, added]) h"
proof -
  define h1 where "h1 = h\<lparr>objs := objs h @
    [\<lparr>props = [], proto = Some (object_proto (intrinsics h)), callable = False\<rparr>]\<rparr>"
  have new: "new_object h = (Inr (length (objs h)), h1)" by (simp add: new_object_result h1_def)
  have len: "length (objs h1) = Suc (length (objs h))" by (simp add: h1_def)
  have fr: "heap_frame {} h h1" using new by (rule new_object_frame)
  have ok1: "heap_ok h1" using assms(1) new by (rule heap_ok_new_object)
  have realm: "realm_below (length (objs h)) (intrinsics h1)"
    using heap_ok_realm [OF assms(1)] fr by (simp add: realm_ok_def heap_frame_intrinsics)
  have fr': "heap_frame ({length (objs h)} \<times> UNIV) h h1" using fr by (rule heap_frame_mono) simp
  have n: "length (objs h) \<le> length (objs h)" by simp
  have realm0: "realm_below (length (objs h)) (intrinsics h)"
    using heap_ok_realm [OF assms(1)] by (simp add: realm_ok_def)
  have b1: "builtin_has_own h1 old" by (rule builtin_has_own_frame [OF fr' n n realm0 assms(2,4)])
  have b2: "builtin_has_own h1 added" by (rule builtin_has_own_frame [OF fr' n n realm0 assms(3,5)])
  have out: "length (objs h) < length (objs h1)" by (simp add: len)
  have srcs: "list_all (val_ok (length (objs h))) [old, added]" using assms(2,3) by simp
  have "assign_installed True (Ref (length (objs h))) [old, added] h1 =
        assign_installed False (Ref (length (objs h))) [old, added] h1"
    by (rule assign_installed_Ref [where n = "length (objs h)"])
       (use srcs in \<open>simp add: assign_pre_def ok1 realm out b1 b2\<close>)
  then show ?thesis by (simp add: js_bind_def new)
qed

end
