(* ===== verification/ContextTypes.thy ===== *)
theory ContextTypes
  imports ApplyMixin Native_Assign
begin

text \<open>
  What the \<open>contextTypes\<close> branch of \<open>applyMixin\<close> (lines 38--45 of
  \<open>src/src/applyMixin.js\<close>) computes in general: when the step returns, the class's
  \<open>contextTypes\<close> is the fresh object allocated for \<open>Object.assign({}, ...)\<close>, and
  its own values are the class's old \<open>contextTypes\<close> entries overwritten by the
  mixin's. The proof composes the step of \<open>ApplyMixin\<close> with the contract of the
  polyfill proved in \<open>Native_Assign\<close>.
\<close>

section \<open>Lemmas\<close>

lemma merge_context_types_Inr:
  assumes "merge_context_types m tc key h = (Inr r, h')"
  obtains h1 old added h2 where "new_object h = (Inr (length (objs h)), h1)"
    and "get_value h1 tc key = Inr old" and "get_value h1 m key = Inr added"
    and "object_assign (Ref (length (objs h))) [old, added] h1 = (Inr (Ref (length (objs h))), h2)"
    and "js_set tc key (Ref (length (objs h))) h2 = (Inr (), h')"
proof -
  obtain h1 where n: "new_object h = (Inr (length (objs h)), h1)"
    by (simp add: new_object_def alloc_def)
  with assms have "\<exists>old added h2 v. get_value h1 tc key = Inr old \<and> get_value h1 m key = Inr added \<and>
      object_assign (Ref (length (objs h))) [old, added] h1 = (Inr v, h2) \<and>
      js_set tc key v h2 = (Inr (), h')"
    unfolding merge_context_types_eq by (auto split: sum.splits prod.splits)
  then obtain old added h2 v where parts: "get_value h1 tc key = Inr old" "get_value h1 m key = Inr added"
      "object_assign (Ref (length (objs h))) [old, added] h1 = (Inr v, h2)"
      "js_set tc key v h2 = (Inr (), h')"
    by blast
  with object_assign_Ref_result [OF parts(3)] n show ?thesis by (intro that) simp_all
qed

lemma own_enum_values_new_object:
  assumes "heap_ok h" and "new_object h = (r, h1)" and "val_ok (length (objs h)) v"
  shows "own_enum_values h1 v = own_enum_values h v"
proof -
  have "map_of (own_props_of h1 v) = map_of (own_props_of h v)"
    using new_object_frame [OF assms(2)] assms(3) by (rule own_props_map_frame) auto
  then show ?thesis by (simp add: own_enum_values_def fun_eq_iff)
qed

lemma own_values_new_object:
  "new_object h = (r, h1) \<Longrightarrow> own_values h1 (length (objs h)) = Map.empty"
  by (simp add: new_object_result own_values_def fun_eq_iff)

lemma put_own_result:
  assumes "c < length (objs h)"
  shows "get_value (put_own c k v h) (Ref c) k = Inr v"
    and "b \<noteq> c \<Longrightarrow> own_values (put_own c k v h) b = own_values h b"
  using assms
  by (auto simp: get_value_Ref lookup_prop_in map_of_put_own own_values_def fun_eq_iff
      new_data_prop_def split: option.splits)

lemma own_props_frame_at:
  assumes "heap_frame W h h'" and "val_ok (length (objs h)) v" and "\<forall>a \<in> addr_of v. (a, k) \<notin> W"
  shows "map_of (own_props_of h' v) k = map_of (own_props_of h v) k"
proof (cases v)
  case (Ref a)
  with assms(2) have a: "a < length (objs h)" by simp
  with heap_frame_length [OF assms(1)] have "a < length (objs h')" by simp
  with a Ref assms show ?thesis by (simp add: obj_at_def heap_frame_map_of)
qed simp_all

lemma own_enum_values_enum_props:
  assumes "a < length (objs h)" and "enum_props h a"
  shows "own_enum_values h (Ref a) = own_values h a"
proof -
  have "enumerable p" if "map_of (props (objs h ! a)) k = Some p" for k p
    using assms(2) map_of_SomeD [OF that] by (auto simp: enum_props_def list_all_iff)
  with assms(1) show ?thesis
    by (auto simp: own_enum_values_def own_values_def fun_eq_iff obj_at_def split: option.splits)
qed

lemma map_add_right_idem: "(f ++ g) ++ g = f ++ g"
  by (simp add: fun_eq_iff map_add_def split: option.splits)

text \<open>
  The \<open>contextTypes\<close> step in full: the fresh object's values, the new length, and that
  the fresh object holds only enumerable properties and has \<open>Object.prototype\<close> as
  prototype.
\<close>

lemma context_types_step:
  assumes ok: "heap_ok h" and c: "c < length (objs h)" and m: "val_ok (length (objs h)) m"
    and old: "get_value h (Ref c) ''contextTypes'' = Inr old"
    and added: "get_value h m ''contextTypes'' = Inr added"
    and bo: "builtin_has_own h old" and ba: "builtin_has_own h added"
    and run: "mixin_step m (Ref c) ''contextTypes'' h = (Inr r, h')"
  shows "get_value h' (Ref c) ''contextTypes'' = Inr (Ref (length (objs h))) \<and>
         own_values h' (length (objs h)) = own_enum_values h old ++ own_enum_values h added \<and>
         length (objs h') = Suc (length (objs h)) \<and> enum_props h' (length (objs h)) \<and>
         proto (objs h' ! length (objs h)) = Some (object_proto (intrinsics h))"
proof -
  let ?n = "length (objs h)"
  from run have "merge_context_types m (Ref c) ''contextTypes'' h = (Inr r, h')"
    by (simp add: mixin_step_def)
  then obtain h1 old' added' h2 where new: "new_object h = (Inr ?n, h1)"
    and old': "get_value h1 (Ref c) ''contextTypes'' = Inr old'"
    and added': "get_value h1 m ''contextTypes'' = Inr added'"
    and asg: "object_assign (Ref ?n) [old', added'] h1 = (Inr (Ref ?n), h2)"
    and set: "js_set (Ref c) ''contextTypes'' (Ref ?n) h2 = (Inr (), h')"
    by (rule merge_context_types_Inr)
  have fr1: "heap_frame {} h h1" using new by (rule new_object_frame)
  have len1: "length (objs h1) = Suc ?n" using new by (simp add: new_object_result)
  have realm: "realm_below ?n (intrinsics h)"
    using heap_ok_realm [OF ok] by (simp add: realm_ok_def)
  have "get_value h1 v k = get_value h v k" if "val_ok ?n v" for v k
    using fr1 realm that by (rule get_value_frame) auto
  with old old' added added' m c have eqs: "old' = old" "added' = added" by simp_all
  have vo: "val_ok ?n old" and va: "val_ok ?n added"
    using get_value_val_ok [OF ok _ old] get_value_val_ok [OF ok m added] c by simp_all
  have fr1': "heap_frame ({?n} \<times> UNIV) h h1" using fr1 by (rule heap_frame_mono) simp
  have pre: "assign_pre ?n ?n h1 [old, added]"
    using heap_ok_new_object [OF ok new] realm heap_frame_intrinsics [OF fr1] len1 vo va
      builtin_has_own_frame [OF fr1' le_refl le_refl realm vo bo]
      builtin_has_own_frame [OF fr1' le_refl le_refl realm va ba]
    by (simp add: assign_pre_def)
  have h2: "own_values h2 ?n = own_enum_values h old ++ own_enum_values h added"
    using object_assign_values [OF pre asg [unfolded eqs]]
    by (simp add: assign_spec_def own_values_new_object [OF new]
        own_enum_values_new_object [OF ok new vo] own_enum_values_new_object [OF ok new va])
  have c2: "c < length (objs h2)"
    using c len1 length_object_assign_Ref [OF asg] by simp
  from set c2 have h': "h' = put_own c ''contextTypes'' (Ref ?n) h2"
    by (auto elim: js_set_cases)
  have ps: "put_steps UNIV h1 h'"
    using js_set_put_steps [OF set subset_UNIV] put_steps_mono [OF object_assign_Ref_put_steps [OF asg]]
    by (auto intro: put_steps_trans)
  have e1: "enum_props h1 ?n" using new by (simp add: new_object_result enum_props_def)
  have "enum_props h' ?n" using ps e1 by (rule put_steps_invariant) (rule enum_props_put_own)
  moreover have "length (objs h') = Suc ?n" using put_steps_length [OF ps] len1 by simp
  moreover have "proto (objs h' ! ?n) = Some (object_proto (intrinsics h))"
  proof -
    have "heap_frame ({?n} \<times> UNIV \<union> {c} \<times> {''contextTypes''}) h1 h'"
      using object_assign_Ref_frame [OF asg] js_set_frame [OF set] by (auto dest: heap_frame_trans)
    with len1 new show ?thesis by (simp add: heap_frame_proto new_object_result)
  qed
  ultimately show ?thesis
    using put_own_result [OF c2, where k = "''contextTypes''" and v = "Ref ?n"] c h2 by (simp add: h')
qed

text \<open>
  C18 (functional). When the \<open>contextTypes\<close> step returns, the class's
  \<open>contextTypes\<close> is the object allocated by the step, whose own values are the old
  \<open>contextTypes\<close>'s enumerable own values overwritten by the mixin's: the merge the
  specification calls accumulation, for any class and mixin.
\<close>

theorem context_types_merge_result:
  assumes ok: "heap_ok h" and c: "c < length (objs h)" and m: "val_ok (length (objs h)) m"
    and old: "get_value h (Ref c) ''contextTypes'' = Inr old"
    and added: "get_value h m ''contextTypes'' = Inr added"
    and bo: "builtin_has_own h old" and ba: "builtin_has_own h added"
    and run: "mixin_step m (Ref c) ''contextTypes'' h = (Inr r, h')"
  shows "get_value h' (Ref c) ''contextTypes'' = Inr (Ref (length (objs h))) \<and>
         own_values h' (length (objs h)) = own_enum_values h old ++ own_enum_values h added"
  using context_types_step [OF assms] by simp

text \<open>
  Two \<open>contextTypes\<close> steps in a row, with mixins \<open>m1\<close> and \<open>m2\<close>: the second merges
  the first's fresh object with \<open>m2\<close>'s \<open>contextTypes\<close> into a second fresh object.
\<close>

lemma context_types_second_step:
  assumes ok: "heap_ok h" and c: "c < length (objs h)"
    and m1: "val_ok (length (objs h)) m1" and m2: "val_ok (length (objs h)) m2"
    and mc: "c \<notin> addr_of m2" and mk: "map_of (own_props_of h m2) ''contextTypes'' \<noteq> None"
    and old: "get_value h (Ref c) ''contextTypes'' = Inr old"
    and a1: "get_value h m1 ''contextTypes'' = Inr added1"
    and a2: "get_value h m2 ''contextTypes'' = Inr added2" and ac: "c \<notin> addr_of added2"
    and bo: "builtin_has_own h old" and ba1: "builtin_has_own h added1"
    and ba2: "builtin_has_own h added2"
    and op: "builtin_has_own h (Ref (object_proto (intrinsics h)))"
    and hop: "''hasOwnProperty'' \<notin> dom (own_enum_values h old ++ own_enum_values h added1)"
    and run1: "mixin_step m1 (Ref c) ''contextTypes'' h = (Inr r1, h1)"
    and run2: "mixin_step m2 (Ref c) ''contextTypes'' h1 = (Inr r2, h2)"
  shows "get_value h2 (Ref c) ''contextTypes'' = Inr (Ref (Suc (length (objs h)))) \<and>
         own_values h1 (length (objs h)) = own_enum_values h old ++ own_enum_values h added1 \<and>
         own_values h2 (Suc (length (objs h))) =
           own_values h1 (length (objs h)) ++ own_enum_values h added2"
proof -
  let ?n = "length (objs h)" and ?ct = "''contextTypes''" and ?ho = "''hasOwnProperty''"
  note st1 = context_types_step [OF ok c m1 old a1 bo ba1 run1]
  have fr: "heap_frame ({c} \<times> {?ct}) h h1"
    using run1 merge_context_types_frame [of m1 "Ref c" ?ct h] by (simp add: mixin_step_def)
  have realm: "realm_below ?n (intrinsics h)" using heap_ok_realm [OF ok] by (simp add: realm_ok_def)
  have va: "val_ok ?n added2" using get_value_val_ok [OF ok m2 a2] .
  have ok1: "heap_ok h1" using heap_ok_mixin_step [OF ok m1 _ run1] c by simp
  have c1: "c < length (objs h1)" and m2': "val_ok (length (objs h1)) m2" and n1: "?n < length (objs h1)"
    using c m2 st1 by (auto intro: val_ok_mono)
  obtain q where q: "map_of (own_props_of h m2) ?ct = Some q" using mk by auto
  have nn: "\<not> nullish m2" using a2 by (auto simp: get_value_def split: if_splits)
  have "map_of (own_props_of h1 m2) ?ct = Some q"
    using own_props_frame_at [OF fr m2] mc q by auto
  with a2 get_value_own [OF nn q] have a2': "get_value h1 m2 ?ct = Inr added2"
    by (simp add: get_value_own [OF nn])
  have ho_eq: "get_value h1 v ?ho = get_value h v ?ho" if "val_ok ?n v" for v
    using fr realm that by (rule get_value_frame) auto
  have ba2': "builtin_has_own h1 added2"
    using ba2 ho_eq [OF va] heap_frame_intrinsics [OF fr] by (simp add: builtin_has_own_def)
  have bo1: "builtin_has_own h1 (Ref ?n)"
  proof -
    have "own_values h1 ?n ?ho = None" using st1 hop by (simp add: domIff)
    then have none: "map_of (props (objs h1 ! ?n)) ?ho = None" by (simp add: own_values_def)
    have "object_proto (intrinsics h) < ?n" using realm by (simp add: realm_below_def)
    then have "get_value h1 (Ref ?n) ?ho = get_value h (Ref (object_proto (intrinsics h))) ?ho"
      using none st1 n1 ho_eq [of "Ref (object_proto (intrinsics h))"]
      by (simp add: get_value_Ref lookup_prop_in)
    with op heap_frame_intrinsics [OF fr] show ?thesis
      by (simp add: builtin_has_own_def nullish_def)
  qed
  note st2 = context_types_step [OF ok1 c1 m2' _ a2' bo1 ba2' run2]
  have "own_enum_values h1 (Ref ?n) = own_values h1 ?n"
    using n1 st1 by (simp add: own_enum_values_enum_props)
  moreover have "own_enum_values h1 added2 = own_enum_values h added2"
    using own_props_frame_at [OF fr va] ac by (simp add: own_enum_values_def fun_eq_iff)
  ultimately show ?thesis using st1 st2 by simp
qed

text \<open>
  C21 (functional). Applying the \<open>contextTypes\<close> step a second time merges the same
  data again: the class's \<open>contextTypes\<close> becomes a second fresh object whose own
  values are exactly those of the first, the specification's "idempotent in result".
  It needs the mixin to own its \<open>contextTypes\<close> (as every key of
  \<open>Object.keys(mixin)\<close> is), neither the mixin nor its \<open>contextTypes\<close> to be the
  class, \<open>Object.prototype.hasOwnProperty\<close> to be the built-in, and no merged entry
  to be named \<open>hasOwnProperty\<close> (the polyfill's second merge calls that entry).
\<close>

theorem context_types_reapply_values:
  assumes ok: "heap_ok h" and c: "c < length (objs h)" and m: "val_ok (length (objs h)) m"
    and mc: "c \<notin> addr_of m" and mk: "map_of (own_props_of h m) ''contextTypes'' \<noteq> None"
    and old: "get_value h (Ref c) ''contextTypes'' = Inr old"
    and added: "get_value h m ''contextTypes'' = Inr added" and ac: "c \<notin> addr_of added"
    and bo: "builtin_has_own h old" and ba: "builtin_has_own h added"
    and op: "builtin_has_own h (Ref (object_proto (intrinsics h)))"
    and hop: "''hasOwnProperty'' \<notin> dom (own_enum_values h old ++ own_enum_values h added)"
    and run1: "mixin_step m (Ref c) ''contextTypes'' h = (Inr r1, h1)"
    and run2: "mixin_step m (Ref c) ''contextTypes'' h1 = (Inr r2, h2)"
  shows "get_value h2 (Ref c) ''contextTypes'' = Inr (Ref (Suc (length (objs h)))) \<and>
         own_values h2 (Suc (length (objs h))) = own_values h1 (length (objs h))"
  using context_types_second_step [OF ok c m m mc mk old added added ac bo ba ba op hop run1 run2]
  by (simp add: map_add_right_idem)

text \<open>
  C24 (functional). The specification's accumulation, in general: two mixins applied in
  turn leave the class's \<open>contextTypes\<close> as a fresh object holding the class's old
  entries, overwritten by the first mixin's, overwritten by the second's; under the
  conditions of C21 for the second mixin and of C18 for both.
\<close>

theorem context_types_accumulate_values:
  assumes ok: "heap_ok h" and c: "c < length (objs h)"
    and m1: "val_ok (length (objs h)) m1" and m2: "val_ok (length (objs h)) m2"
    and mc: "c \<notin> addr_of m2" and mk: "map_of (own_props_of h m2) ''contextTypes'' \<noteq> None"
    and old: "get_value h (Ref c) ''contextTypes'' = Inr old"
    and a1: "get_value h m1 ''contextTypes'' = Inr added1"
    and a2: "get_value h m2 ''contextTypes'' = Inr added2" and ac: "c \<notin> addr_of added2"
    and bo: "builtin_has_own h old" and ba1: "builtin_has_own h added1"
    and ba2: "builtin_has_own h added2"
    and op: "builtin_has_own h (Ref (object_proto (intrinsics h)))"
    and hop: "''hasOwnProperty'' \<notin> dom (own_enum_values h old ++ own_enum_values h added1)"
    and run1: "mixin_step m1 (Ref c) ''contextTypes'' h = (Inr r1, h1)"
    and run2: "mixin_step m2 (Ref c) ''contextTypes'' h1 = (Inr r2, h2)"
  shows "get_value h2 (Ref c) ''contextTypes'' = Inr (Ref (Suc (length (objs h)))) \<and>
         own_values h2 (Suc (length (objs h))) =
           own_enum_values h old ++ own_enum_values h added1 ++ own_enum_values h added2"
  using context_types_second_step [OF assms] by simp

end
