(* ===== verification/Idempotence.thy ===== *)
theory Idempotence
  imports ApplyMixin
begin

text \<open>
  Applying the same mixin twice (\<open>applyMixin\<close> of \<open>src/src/applyMixin.js\<close>, lines
  33--71): after a first application returns, every key of the mixin is
  \<^emph>\<open>settled\<close> on the class, i.e.\ its member test (line 48) is truthy or the class
  already holds the mixin's value as a writable own property; a settled key's step
  leaves the heap as it is, and a step at another key keeps a key settled. So a
  second application of a mixin without \<open>contextTypes\<close> changes nothing.
\<close>

text \<open>Whether the value read as \<open>obj[k]\<close> from the object at \<open>a\<close> is truthy.\<close>

definition prop_truthy :: "heap \<Rightarrow> addr \<Rightarrow> key \<Rightarrow> bool" where
  "prop_truthy h a k = (case lookup_prop h a k of Some q \<Rightarrow> truthy (pval q) | None \<Rightarrow> False)"

text \<open>
  The key \<open>k\<close> of mixin \<open>m\<close> is settled on the class at \<open>c\<close> with prototype \<open>p\<close>:
  either the test of line 48 skips it, or the class holds the mixin's value as a
  writable own property (a falsy non-function value copied at line 66).
\<close>

definition mixin_settled :: "val \<Rightarrow> addr \<Rightarrow> addr \<Rightarrow> key \<Rightarrow> heap \<Rightarrow> bool" where
  "mixin_settled m c p k h =
     (c < length (objs h) \<and> get_value h (Ref c) ''prototype'' = Inr (Ref p) \<and>
      (case map_of (own_props_of h m) k of
         None \<Rightarrow> False
       | Some q \<Rightarrow> prop_truthy h c k \<or> prop_truthy h p k \<or>
           (case map_of (props (objs h ! c)) k of
              None \<Rightarrow> False
            | Some w \<Rightarrow> pval w = pval q \<and> writable w)))"

section \<open>Lemmas\<close>

lemma put_own_same_value:
  assumes "a < length (objs h)" and "map_of (props (objs h ! a)) k = Some w" and "pval w = v"
  shows "put_own a k v h = h"
proof -
  have "upd_or_append k (\<lambda>p. p\<lparr>pval := v\<rparr>) (new_data_prop v) (props (objs h ! a)) = props (objs h ! a)"
    using assms(2,3) by (simp add: upd_or_append_same)
  with assms(1) show ?thesis by (simp add: put_own_def)
qed

lemma copy_member_prototype:
  "get_value h (Ref c) ''prototype'' = Inr (Ref p) \<Longrightarrow>
   copy_member m (Ref c) ''prototype'' h = (Inr (Ref c), h)"
  by (simp add: copy_member_eq)

lemma copy_member_writes:
  assumes "get_value h (Ref c) ''prototype'' = Inr (Ref p)" and "copy_member m (Ref c) k h = (r, h')"
  shows "h' = h \<or> (k \<noteq> ''prototype'' \<and> (\<exists>a v. a \<in> {c, p} \<and> h' = put_own a k v h))"
proof (cases "k = ''prototype''")
  case True
  with assms show ?thesis by (simp add: copy_member_prototype)
next
  case False
  from copy_member_cases [OF assms(2)] assms(1) False show ?thesis
    by (auto elim!: js_set_cases split: if_splits)
qed

text \<open>The member test of line 48 is truthy: the step returns the class untouched.\<close>

lemma copy_member_skip:
  assumes "get_value h (Ref c) ''prototype'' = Inr (Ref p)" and "prop_truthy h c k \<or> prop_truthy h p k"
  shows "copy_member m (Ref c) k h = (Inr (Ref c), h)"
  using assms by (auto simp: copy_member_eq get_value_Ref prop_truthy_def split: option.splits)

text \<open>A settled key's step returns the class and leaves the heap as it is.\<close>

lemma settled_copy_member:
  assumes s: "mixin_settled m c p k h" and nn: "\<not> nullish m"
  shows "copy_member m (Ref c) k h = (Inr (Ref c), h)"
proof -
  from s obtain q where c: "c < length (objs h)" and pr: "get_value h (Ref c) ''prototype'' = Inr (Ref p)"
    and q: "map_of (own_props_of h m) k = Some q"
    and alt: "prop_truthy h c k \<or> prop_truthy h p k \<or>
      (case map_of (props (objs h ! c)) k of None \<Rightarrow> False | Some w \<Rightarrow> pval w = pval q \<and> writable w)"
    by (auto simp: mixin_settled_def split: option.splits)
  have gm: "get_value h m k = Inr (pval q)" using nn q by (rule get_value_own)
  show ?thesis
  proof (cases "prop_truthy h c k \<or> prop_truthy h p k")
    case True
    with pr show ?thesis by (rule copy_member_skip)
  next
    case False
    with alt obtain w where w: "map_of (props (objs h ! c)) k = Some w" "pval w = pval q" "writable w"
      by (auto split: option.splits)
    have lc: "lookup_prop h c k = Some w" using c w(1) by (simp add: lookup_prop_in)
    with False have nt: "\<not> truthy (pval q)" by (simp add: prop_truthy_def w(2))
    then have nf: "\<not> is_function h (pval q)" by (cases "pval q") simp_all
    have "put_own c k (pval q) h = h" using c w(1,2) by (rule put_own_same_value)
    with False pr gm lc nt nf w(2,3) show ?thesis
      by (simp add: copy_member_eq get_value_Ref prop_truthy_def js_set_def
          split: option.splits)
  qed
qed

text \<open>An assignment at another key, to an object the mixin does not own, keeps a key settled.\<close>

lemma settled_put_own:
  assumes s: "mixin_settled m c p k h" and "k' \<noteq> k" and "k' \<noteq> ''prototype''" and "a \<notin> addr_of m"
  shows "mixin_settled m c p k (put_own a k' v h)"
proof -
  let ?h' = "put_own a k' v h"
  have fr: "heap_frame {(a, k')} h ?h'" by (rule put_own_frame)
  have lk: "lookup_prop ?h' b k = lookup_prop h b k" for b
  proof (cases "b < length (objs h)")
    case True
    with fr assms(2) show ?thesis by (auto intro: lookup_prop_frame)
  qed (simp add: lookup_prop_out)
  from s have c: "c < length (objs h)" by (simp add: mixin_settled_def)
  have gp: "get_value ?h' (Ref c) ''prototype'' = get_value h (Ref c) ''prototype''"
    using fr c assms(3) by (auto intro: get_value_Ref_frame)
  have mc: "map_of (props (objs ?h' ! c)) k = map_of (props (objs h ! c)) k"
    using fr c assms(2) by (simp add: heap_frame_map_of)
  have pt: "prop_truthy ?h' b k = prop_truthy h b k" for b
    by (simp add: prop_truthy_def lk)
  from s show ?thesis
    unfolding mixin_settled_def gp mc pt own_props_of_put_own [OF assms(4)] length_put_own .
qed

text \<open>A returning step at a key of the mixin settles that key.\<close>

lemma copy_member_settles:
  assumes c: "c < length (objs h)" and p: "p < length (objs h)"
    and pr: "get_value h (Ref c) ''prototype'' = Inr (Ref p)"
    and disj: "addr_of m \<inter> {c, p} = {}" and nn: "\<not> nullish m"
    and q: "map_of (own_props_of h m) k = Some q"
    and run: "copy_member m (Ref c) k h = (Inr r, h')"
  shows "mixin_settled m c p k h'"
proof (cases "prop_truthy h c k \<or> prop_truthy h p k")
  case True
  with pr run have "h' = h" by (simp add: copy_member_skip)
  with True c pr q show ?thesis by (auto simp: mixin_settled_def)
next
  case False
  let ?v = "pval q"
  have gm: "get_value h m k = Inr ?v" using nn q by (rule get_value_own)
  have kp: "k \<noteq> ''prototype''"
    using False pr by (auto simp: prop_truthy_def get_value_Ref split: option.splits)
  from False pr gm run have set: "js_set (if is_function h ?v then Ref p else Ref c) k ?v h = (Inr (), h')"
    by (auto simp: copy_member_eq get_value_Ref prop_truthy_def split: option.splits prod.splits sum.splits)
  show ?thesis
  proof (cases "is_function h ?v")
    case True
    with set have h': "h' = put_own p k ?v h" by (auto elim: js_set_cases)
    have "truthy ?v" using True by (cases ?v) simp_all
    then have "prop_truthy h' p k"
      using p by (simp add: h' prop_truthy_def lookup_prop_in map_of_put_own new_data_prop_def
          split: option.splits)
    moreover have "get_value h' (Ref c) ''prototype'' = Inr (Ref p)"
      using pr c kp by (simp add: h' get_value_Ref_frame [OF put_own_frame])
    ultimately show ?thesis
      using c q disj by (simp add: mixin_settled_def h' own_props_of_put_own)
  next
    case False
    with set have h': "h' = put_own c k ?v h"
      and w: "case lookup_prop h c k of None \<Rightarrow> True | Some p \<Rightarrow> writable p"
      by (auto elim: js_set_cases)
    have "case map_of (props (objs h' ! c)) k of None \<Rightarrow> False | Some w \<Rightarrow> pval w = ?v \<and> writable w"
      using c w by (auto simp: h' map_of_put_own lookup_prop_in new_data_prop_def split: option.splits)
    moreover have "get_value h' (Ref c) ''prototype'' = Inr (Ref p)"
      using pr c kp by (simp add: h' get_value_Ref_frame [OF put_own_frame])
    ultimately show ?thesis
      using c q disj by (simp add: mixin_settled_def h' own_props_of_put_own)
  qed
qed

subsection \<open>The fold\<close>

text \<open>
  The first application: every step returns the class and writes at most its own key
  on the class or its prototype, so the keys done stay settled, the mixin's own
  properties stay as they were, and the fold ends with every key settled.
\<close>

lemma mixin_fold_settles:
  assumes "js_reduce (mixin_step m) ks (Ref c) h = (Inr r, h')"
    and "c < length (objs h)" and "p < length (objs h)"
    and "get_value h (Ref c) ''prototype'' = Inr (Ref p)"
    and "addr_of m \<inter> {c, p} = {}" and "\<not> nullish m" and "''contextTypes'' \<notin> set ks"
    and "\<forall>k \<in> set ks. map_of (own_props_of h m) k \<noteq> None"
    and "\<forall>k \<in> D. mixin_settled m c p k h"
  shows "(\<forall>k \<in> D \<union> set ks. mixin_settled m c p k h') \<and> own_props_of h' m = own_props_of h m"
  using assms
proof (induction ks arbitrary: h D)
  case Nil
  then show ?case by simp
next
  case (Cons k ks)
  from Cons.prems(1) obtain a h1 where step: "mixin_step m (Ref c) k h = (Inr a, h1)"
    and rest: "js_reduce (mixin_step m) ks a h1 = (Inr r, h')"
    by (auto simp: js_bind_def split: prod.splits sum.splits)
  have a: "a = Ref c" using step by (rule mixin_step_result)
  have cm: "copy_member m (Ref c) k h = (Inr a, h1)"
    using step Cons.prems(7) by (auto simp: mixin_step_def)
  obtain q where q: "map_of (own_props_of h m) k = Some q" using Cons.prems(8) by auto
  have new: "mixin_settled m c p k h1"
    using Cons.prems(2-6) q cm by (rule copy_member_settles)
  have len: "length (objs h1) = length (objs h)" and own: "own_props_of h1 m = own_props_of h m"
    and old: "\<forall>k' \<in> D. mixin_settled m c p k' h1"
  proof -
    from copy_member_writes [OF Cons.prems(4) cm]
    have "length (objs h1) = length (objs h) \<and> own_props_of h1 m = own_props_of h m \<and>
        (\<forall>k' \<in> D. mixin_settled m c p k' h1)"
    proof
      assume "h1 = h"
      with Cons.prems(9) show ?thesis by simp
    next
      assume "k \<noteq> ''prototype'' \<and> (\<exists>a v. a \<in> {c, p} \<and> h1 = put_own a k v h)"
      then obtain b v where kp: "k \<noteq> ''prototype''" and b: "b \<notin> addr_of m"
        and h1: "h1 = put_own b k v h"
        using Cons.prems(5) by blast
      have "mixin_settled m c p k' h1" if "k' \<in> D" for k'
      proof (cases "k' = k")
        case True
        with new show ?thesis by simp
      next
        case False
        with Cons.prems(9) that kp b show ?thesis
          unfolding h1 by (blast intro: settled_put_own)
      qed
      with b show ?thesis by (simp add: h1 own_props_of_put_own)
    qed
    then show "length (objs h1) = length (objs h)" "own_props_of h1 m = own_props_of h m"
      "\<forall>k' \<in> D. mixin_settled m c p k' h1" by simp_all
  qed
  have pr1: "get_value h1 (Ref c) ''prototype'' = Inr (Ref p)"
    using new by (simp add: mixin_settled_def)
  have ks1: "\<forall>k \<in> set ks. map_of (own_props_of h1 m) k \<noteq> None"
    using Cons.prems(8) own by simp
  have "\<forall>k' \<in> insert k D. mixin_settled m c p k' h1" using new old by blast
  from Cons.IH [OF rest [unfolded a] _ _ pr1 Cons.prems(5,6) _ ks1 this] Cons.prems(2,3,7) len own
  show ?case by simp
qed

text \<open>The second application: a fold over settled keys changes nothing.\<close>

lemma mixin_fold_settled:
  assumes "\<forall>k \<in> set ks. mixin_settled m c p k h" and "\<not> nullish m"
    and "''contextTypes'' \<notin> set ks"
  shows "js_reduce (mixin_step m) ks (Ref c) h = (Inr (Ref c), h)"
  using assms
  by (induction ks) (auto simp: js_bind_def mixin_step_def settled_copy_member js_return_def)

lemma own_key_present:
  "k \<in> set (enum_keys ps) \<Longrightarrow> map_of ps k \<noteq> None"
  by (auto simp: set_enum_keys weak_map_of_SomeI)

text \<open>A returning first application settles every key of the mixin and leaves the mixin as it was.\<close>

lemma apply_mixin_settles:
  assumes ok: "heap_ok h" and c: "c < length (objs h)"
    and pr: "get_value h (Ref c) ''prototype'' = Inr (Ref p)"
    and disj: "addr_of m \<inter> {c, p} = {}"
    and ct: "''contextTypes'' \<notin> set (enum_keys (own_props_of h m))"
    and run: "apply_mixin (Ref c) m h = (Inr r, h1)"
  shows "\<not> nullish m \<and> own_props_of h1 m = own_props_of h m \<and>
         (\<forall>k \<in> set (enum_keys (own_props_of h m)). mixin_settled m c p k h1)"
proof -
  have p: "p < length (objs h)"
    using get_value_val_ok [OF ok _ pr] c by simp
  have nn: "\<not> nullish m" using run by (auto simp: apply_mixin_eq)
  let ?ks = "enum_keys (own_props_of h m)"
  from run nn have fold: "js_reduce (mixin_step m) ?ks (Ref c) h = (Inr r, h1)"
    by (simp add: apply_mixin_eq)
  have "(\<forall>k \<in> {} \<union> set ?ks. mixin_settled m c p k h1) \<and> own_props_of h1 m = own_props_of h m"
    using fold c p pr disj nn ct by (rule mixin_fold_settles) (auto dest: own_key_present)
  with nn show ?thesis by simp
qed

text \<open>An application whose keys are all settled returns the class and changes nothing.\<close>

lemma apply_mixin_settled_noop:
  assumes "\<not> nullish m" and "''contextTypes'' \<notin> set (enum_keys (own_props_of h m))"
    and "\<forall>k \<in> set (enum_keys (own_props_of h m)). mixin_settled m c p k h"
  shows "apply_mixin (Ref c) m h = (Inr (Ref c), h)"
  using assms by (simp add: apply_mixin_eq mixin_fold_settled)

text \<open>
  C19 (functional). Applying a mixin a second time to the class it was applied to
  returns the class and changes nothing, when the mixin has no \<open>contextTypes\<close> and is
  neither the class nor its prototype: every member the first application copied
  is now found by the test of line 48, or is a falsy value the class already holds,
  which line 66 writes again unchanged.
\<close>

theorem apply_mixin_idempotent:
  assumes ok: "heap_ok h" and c: "c < length (objs h)"
    and pr: "get_value h (Ref c) ''prototype'' = Inr (Ref p)"
    and disj: "addr_of m \<inter> {c, p} = {}"
    and ct: "''contextTypes'' \<notin> set (enum_keys (own_props_of h m))"
    and run: "apply_mixin (Ref c) m h = (Inr r, h1)"
  shows "apply_mixin (Ref c) m h1 = (Inr (Ref c), h1)"
proof -
  from apply_mixin_settles [OF ok c pr disj ct run]
  have nn: "\<not> nullish m" and own: "own_props_of h1 m = own_props_of h m"
    and st: "\<forall>k \<in> set (enum_keys (own_props_of h1 m)). mixin_settled m c p k h1" by simp_all
  have "''contextTypes'' \<notin> set (enum_keys (own_props_of h1 m))" using ct own by simp
  from apply_mixin_settled_noop [OF nn this st] show ?thesis .
qed

end
