(* ===== verification/Progress.thy ===== *)
theory Progress
  imports MixinBuilder Native_Assign
begin

text \<open>
  When \<open>applyMixin\<close> (lines 33--71 of \<open>src/src/applyMixin.js\<close>) and the decorator of
  \<open>applyMixinBuilder\<close> (lines 78--80) return. Every read of a member test or of a mixin
  value returns on an object, so the only way a step without \<open>contextTypes\<close> can
  throw is a failing strict assignment at line 60 or 66. A step is a run of own-property
  writes to the class and its prototype (\<open>put_steps {c, p}\<close>), and such writes keep
  every assignment that was possible possible (\<open>assignable_put_own\<close>), so assignability
  of the mixins' keys at the start is enough for the whole run.
\<close>

section \<open>Lemmas\<close>

lemma put_steps_assignable:
  assumes "put_steps A h h'" and "assignable h b k"
  shows "assignable h' b k"
proof (rule put_steps_invariant [OF assms(1), where P = "\<lambda>s. assignable s b k"])
  fix a k' v s assume "assignable s b k"
  then show "assignable (put_own a k' v s) b k" by (rule assignable_put_own)
qed (rule assms(2))

text \<open>One member (lines 47--69): it returns the class whenever both places it may write accept the write.\<close>

lemma copy_member_returns:
  assumes pr: "get_value h (Ref c) ''prototype'' = Inr (Ref p)" and nn: "\<not> nullish m"
    and ac: "assignable h c k" and ap: "assignable h p k"
  shows "\<exists>h'. copy_member m (Ref c) k h = (Inr (Ref c), h') \<and> put_steps {c, p} h h'"
proof -
  obtain v where gm: "get_value h m k = Inr v" using nn by (simp add: get_value_def)
  let ?a = "if is_function h v then p else c"
  have set: "js_set (if is_function h v then Ref p else Ref c) k v h = (Inr (), put_own ?a k v h)"
    using ac ap js_set_Ref_writable [of h p k v] js_set_Ref_writable [of h c k v]
    by (simp add: assignable_def)
  have "copy_member m (Ref c) k h = (Inr (Ref c), h) \<or>
        copy_member m (Ref c) k h = (Inr (Ref c), put_own ?a k v h)"
    using pr gm set by (simp add: copy_member_eq get_value_Ref split: option.splits)
  moreover have "put_steps {c, p} h (put_own ?a k v h)"
    by (rule put_steps.put_more [OF put_steps.put_none]) simp
  ultimately show ?thesis by (blast intro: put_steps.put_none)
qed

lemma mixin_fold_returns:
  assumes "c < length (objs h)" and "get_value h (Ref c) ''prototype'' = Inr (Ref p)"
    and "\<not> nullish m" and "''contextTypes'' \<notin> set ks"
    and "\<forall>k \<in> set ks. assignable h c k \<and> assignable h p k"
  shows "\<exists>h'. js_reduce (mixin_step m) ks (Ref c) h = (Inr (Ref c), h') \<and> put_steps {c, p} h h'"
  using assms
proof (induction ks arbitrary: h)
  case Nil
  then show ?case by (auto intro: put_steps.put_none)
next
  case (Cons k ks)
  from copy_member_returns [OF Cons.prems(2,3)] Cons.prems(5)
  obtain h1 where cm: "copy_member m (Ref c) k h = (Inr (Ref c), h1)" and ps1: "put_steps {c, p} h h1"
    by auto
  have step: "mixin_step m (Ref c) k h = (Inr (Ref c), h1)"
    using cm Cons.prems(4) by (auto simp: mixin_step_def)
  have c1: "c < length (objs h1)" using Cons.prems(1) put_steps_length [OF ps1] by simp
  have pr1: "get_value h1 (Ref c) ''prototype'' = Inr (Ref p)"
    using Cons.prems(2,1) step by (rule mixin_step_keeps_proto)
  have "\<forall>k \<in> set ks. assignable h1 c k \<and> assignable h1 p k"
    using Cons.prems(5) ps1 by (auto intro: put_steps_assignable)
  with Cons.IH [OF c1 pr1 Cons.prems(3)] Cons.prems(4) obtain h' where
    rest: "js_reduce (mixin_step m) ks (Ref c) h1 = (Inr (Ref c), h')" and ps: "put_steps {c, p} h1 h'"
    by auto
  from step rest put_steps_trans [OF ps ps1] show ?case by (auto simp: js_bind_def)
qed

text \<open>One whole application, with the class's prototype kept (line 60 re-reads it).\<close>

lemma apply_mixin_progress:
  assumes "c < length (objs h)" and "get_value h (Ref c) ''prototype'' = Inr (Ref p)"
    and "\<not> nullish m" and "''contextTypes'' \<notin> set (enum_keys (own_props_of h m))"
    and "\<forall>k \<in> set (enum_keys (own_props_of h m)). assignable h c k \<and> assignable h p k"
  shows "\<exists>h'. apply_mixin (Ref c) m h = (Inr (Ref c), h') \<and> put_steps {c, p} h h' \<and>
              get_value h' (Ref c) ''prototype'' = Inr (Ref p)"
proof -
  from mixin_fold_returns [OF assms] obtain h' where
    run: "js_reduce (mixin_step m) (enum_keys (own_props_of h m)) (Ref c) h = (Inr (Ref c), h')"
    and ps: "put_steps {c, p} h h'" by blast
  have "get_value h' (Ref c) ''prototype'' = Inr (Ref p)"
    using assms(1,2) run by (rule mixin_fold_keeps_proto)
  with run ps assms(3) show ?thesis by (auto simp: apply_mixin_eq)
qed

text \<open>
  C25 (error). Exactly when one member (lines 47--69) throws: with the class's prototype
  an object and a non-nullish mixin, the step fails with a TypeError, leaving the heap
  as it was, if and only if both member tests of line 48 are falsy and the object the
  value goes to (the prototype for a function, line 60; the class otherwise, line 66)
  refuses the strict assignment. Otherwise it returns the class.
\<close>

theorem copy_member_throws_iff:
  assumes pr: "get_value h (Ref c) ''prototype'' = Inr (Ref p)"
    and gm: "get_value h m k = Inr v" and ga: "get_value h (Ref c) k = Inr a"
    and gb: "get_value h (Ref p) k = Inr b"
  shows "copy_member m (Ref c) k h = (Inl TypeError, h) \<longleftrightarrow>
         \<not> truthy a \<and> \<not> truthy b \<and> \<not> assignable h (if is_function h v then p else c) k"
proof (cases "truthy a \<or> truthy b")
  case True
  with pr ga gb show ?thesis by (auto simp: copy_member_eq)
next
  case False
  let ?t = "if is_function h v then p else c"
  have "js_set (Ref ?t) k v h =
        (if assignable h ?t k then (Inr (), put_own ?t k v h) else (Inl TypeError, h))"
    by (auto simp: js_set_def assignable_def split: option.splits)
  moreover have "js_set (if is_function h v then Ref p else Ref c) k v h = js_set (Ref ?t) k v h"
    by simp
  ultimately show ?thesis
    using False pr ga gb gm by (auto simp: copy_member_eq split: if_splits)
qed

text \<open>
  C22 (liveness). \<open>applyMixin\<close> with a non-nullish mixin without \<open>contextTypes\<close>
  returns the class, never throwing, whenever each of the mixin's keys can be assigned
  both on the class and on its prototype: the only exceptions of lines 47--69 are the
  strict assignments of lines 60 and 66 (C25 says exactly when).
\<close>

theorem apply_mixin_returns:
  assumes "c < length (objs h)" and "get_value h (Ref c) ''prototype'' = Inr (Ref p)"
    and "\<not> nullish m" and "''contextTypes'' \<notin> set (enum_keys (own_props_of h m))"
    and "\<forall>k \<in> set (enum_keys (own_props_of h m)). assignable h c k \<and> assignable h p k"
  shows "\<exists>h'. apply_mixin (Ref c) m h = (Inr (Ref c), h')"
  using apply_mixin_progress [OF assms] by blast

text \<open>
  C23 (liveness). The decorator returns the class, never throwing, for any list of
  non-nullish mixins without \<open>contextTypes\<close>, none of them the class or its
  prototype, whose keys can all be assigned on the class and on its prototype in the
  heap it starts from: the earlier mixins neither change the later ones' keys nor make
  an assignment fail.
\<close>

theorem apply_mixin_builder_returns:
  assumes "c < length (objs h)" and "get_value h (Ref c) ''prototype'' = Inr (Ref p)"
    and "\<forall>m \<in> set ms. \<not> nullish m \<and> addr_of m \<inter> {c, p} = {} \<and>
           ''contextTypes'' \<notin> set (enum_keys (own_props_of h m)) \<and>
           (\<forall>k \<in> set (enum_keys (own_props_of h m)). assignable h c k \<and> assignable h p k)"
  shows "\<exists>h'. apply_mixin_builder ms (Ref c) h = (Inr (Ref c), h')"
  using assms
proof (induction ms arbitrary: h)
  case Nil
  then show ?case by (simp add: apply_mixin_builder_def)
next
  case (Cons m ms)
  from Cons.prems(3) have m: "\<not> nullish m" "''contextTypes'' \<notin> set (enum_keys (own_props_of h m))"
    "\<forall>k \<in> set (enum_keys (own_props_of h m)). assignable h c k \<and> assignable h p k" by simp_all
  from apply_mixin_progress [OF Cons.prems(1,2) m] obtain h1 where
    run: "apply_mixin (Ref c) m h = (Inr (Ref c), h1)" and ps: "put_steps {c, p} h h1"
    and pr1: "get_value h1 (Ref c) ''prototype'' = Inr (Ref p)" by blast
  have c1: "c < length (objs h1)" using Cons.prems(1) put_steps_length [OF ps] by simp
  have "\<forall>m' \<in> set ms. \<not> nullish m' \<and> addr_of m' \<inter> {c, p} = {} \<and>
           ''contextTypes'' \<notin> set (enum_keys (own_props_of h1 m')) \<and>
           (\<forall>k \<in> set (enum_keys (own_props_of h1 m')). assignable h1 c k \<and> assignable h1 p k)"
    using Cons.prems(3) put_steps_own_props [OF ps] by (auto intro: put_steps_assignable [OF ps])
  from Cons.IH [OF c1 pr1 this] run show ?case by (simp add: apply_mixin_builder_Cons js_bind_def)
qed

text \<open>
  C26 (refinement). The specification's first testable property, whole: for a class and
  a non-nullish mixin without \<open>contextTypes\<close> whose keys the class has on neither
  surface (no own or inherited property of that name on the class or its prototype),
  \<open>applyMixin\<close> returns the class, and every key of the mixin holds the mixin's value,
  on the prototype when it is a function and on the class otherwise.
\<close>

theorem apply_mixin_fresh_members:
  assumes ok: "heap_ok h" and c: "c < length (objs h)"
    and pr: "get_value h (Ref c) ''prototype'' = Inr (Ref p)"
    and m: "val_ok (length (objs h)) m" and nn: "\<not> nullish m"
    and ct: "''contextTypes'' \<notin> set (enum_keys (own_props_of h m))"
    and fresh: "\<forall>k \<in> set (enum_keys (own_props_of h m)). lookup_prop h c k = None \<and> lookup_prop h p k = None"
  shows "\<exists>h'. apply_mixin (Ref c) m h = (Inr (Ref c), h') \<and>
           (\<forall>k \<in> set (enum_keys (own_props_of h m)).
              map_option pval (map_of (props (objs h' !
                (if is_function h (projr (get_value h m k)) then p else c))) k) =
              Some (projr (get_value h m k)))"
proof -
  have "\<forall>k \<in> set (enum_keys (own_props_of h m)). assignable h c k \<and> assignable h p k"
    using fresh by (simp add: assignable_def)
  from apply_mixin_progress [OF c pr nn ct this] obtain h' where
    run: "apply_mixin (Ref c) m h = (Inr (Ref c), h')" by blast
  have "map_option pval (map_of (props (objs h' !
          (if is_function h (projr (get_value h m k)) then p else c))) k) =
        Some (projr (get_value h m k))"
    if k: "k \<in> set (enum_keys (own_props_of h m))" for k
  proof -
    have gv: "get_value h m k = Inr (projr (get_value h m k))"
      using nn by (simp add: get_value_def)
    have "k \<noteq> ''contextTypes''" using k ct by blast
    moreover have "get_value h (Ref c) k = Inr Undef" and "get_value h (Ref p) k = Inr Undef"
      using fresh k by (simp_all add: get_value_Ref)
    ultimately show ?thesis
      using apply_mixin_installs_at [OF ok c pr m k _ _ _ _ _ gv run] by simp
  qed
  with run show ?thesis by blast
qed

end
