(* ===== verification/Spec2Isabelle.thy ===== *)
theory Spec2Isabelle
  imports MixinBuilder ContextTypes Idempotence Progress
begin

text \<open>
  \<^bold>\<open>A verification library for croudcare/relpers, \<^verbatim>\<open>src/src/applyMixin.js\<close>.\<close>

  \<^bold>\<open>The program.\<close> One ES module of 81 lines with three parts that call each other:
  \<^item> an \<open>Object.assign\<close> polyfill (lines 3--25), installed when the host has none:
    it throws a TypeError on an \<open>undefined\<close> or \<open>null\<close> destination, skips
    \<open>undefined\<close> and \<open>null\<close> sources, and copies every key a \<open>for-in\<close> loop
    visits and \<open>source.hasOwnProperty\<close> accepts, by strict assignment;
  \<^item> \<open>applyMixin(target, mixin)\<close> (lines 33--71): \<open>Object.keys(mixin).reduce\<close>
    with the class as accumulator; the key \<open>contextTypes\<close> is merged with
    \<open>Object.assign({}, ...)\<close> into a fresh object; any other key is skipped when
    \<open>targetClass[key] || targetClass.prototype[key]\<close> is truthy, and is otherwise
    assigned to the prototype (functions) or to the class (anything else);
  \<^item> \<open>applyMixinBuilder(...mixins)\<close> (lines 78--80): \<open>mixins.reduce(applyMixin, target)\<close>,
    the module's default export (line 82).
  The only state is the JavaScript heap the three mutate; the only effects are property
  reads, property assignments, one allocation per \<open>contextTypes\<close> merge, and
  exceptions, which propagate with the heap as it was when they were thrown.

  \<^bold>\<open>The theories.\<close>
  \<^item> \<open>JS_Prelude\<close>: addresses, keys, the exception--state monad \<open>('s, 'a) js\<close>
    (\<open>js_return\<close>, \<open>js_throw\<close>, \<open>js_bind\<close>) and its laws, update-or-append on
    association lists, the collection \<open>js_simps\<close>.
  \<^item> \<open>JS_Heap\<close>: the object model the source relies on. Values \<open>val\<close> (JavaScript
    numbers as \<open>int\<close>), objects \<open>obj\<close> (ordered own data properties with writable and
    enumerable flags, a prototype link, a callable flag), the heap record \<open>heap\<close>
    with the intrinsic objects; \<open>truthy\<close>, \<open>js_typeof\<close> (the \<open>typeof\<close> operator),
    \<open>lookup_prop\<close>/\<open>get_value\<close>/\<open>js_get\<close> (OrdinaryGet with ToObject on
    primitives), \<open>js_set\<close> (strict-mode PutValue: a non-writable property on the chain
    or a primitive base throws), \<open>object_keys\<close> with \<open>ordered_keys\<close> (array indices
    ascending, then creation order; \<open>dec_string\<close>/\<open>canonical_index\<close> print and parse
    index keys), \<open>new_object\<close>. The invariant \<open>heap_ok\<close> (distinct property
    names, no dangling references, prototypes allocated before their objects, intrinsics
    present) and the frame relation \<open>heap_frame W\<close> (only the (address, key) cells in
    \<open>W\<close> of old objects change) carry the proofs; \<open>chain_prop\<close> is OrdinaryGet's walk
    as an inductive specification, refined by \<open>lookup_prop\<close>
    (\<open>lookup_prop_refines_chain\<close>).
  \<^item> \<open>JS_Reduce\<close>: \<open>Array.prototype.reduce\<close> over an effectful callback,
    \<open>js_reduce\<close>, the interface both functions of the source are built on, with its
    generic lemmas (append, invariant, frame relation, accumulator, no rollback).
  \<^item> \<open>Assign\<close>: the polyfill: \<open>to_object\<close> (line 11), \<open>forin_keys\<close>/\<open>proto_keys\<close>
    (line 15), \<open>call_has_own\<close> (line 16), \<open>assign_key\<close>, \<open>assign_keys\<close>,
    \<open>assign_source\<close>, \<open>assign_sources\<close> (lines 12--21), \<open>object_assign\<close>
    (lines 5--23).
  \<^item> \<open>ApplyMixin\<close>: \<open>merge_context_types\<close> (lines 38--45), \<open>copy_member\<close>
    (lines 47--69), the callback \<open>mixin_step\<close> (lines 36--70), \<open>apply_mixin\<close>.
  \<^item> \<open>MixinBuilder\<close>: \<open>apply_mixin_builder\<close> (lines 78--80) and the default export
    \<open>module_default\<close> (line 82).
  \<^item> \<open>Idempotence\<close>: a second application of the same mixin; the predicate
    \<open>mixin_settled\<close> (a key's member test now skips it, or the class already holds its
    value) is established by each returning step and kept by the others.
  \<^item> \<open>Native_Assign\<close>: the guard of line 3 (\<open>assign_installed\<close>: the host's
    \<open>Object.assign\<close> when it has one, the polyfill otherwise) and the host function
    itself, \<open>native_assign\<close>, modelled from ECMAScript (OwnPropertyKeys order, a
    \<open>[[GetOwnProperty]]\<close> check at each key, \<open>Get\<close>, strict \<open>Set\<close>); the
    specification \<open>assign_spec\<close> of what a merge computes; the proofs that both
    reduce to one copy loop (\<open>copy_key\<close>) over the enumerable own keys.
  \<^item> \<open>ContextTypes\<close>: the general result of the \<open>contextTypes\<close> branch, composed
    from \<open>ApplyMixin\<close> and \<open>Native_Assign\<close>, for one step and for a repeated step;
    the polyfill's copy is a run of own-property writes (\<open>put_steps\<close>, an inductive
    relation of \<open>JS_Heap\<close>), so the merged object holds only enumerable data
    properties (\<open>enum_props\<close>).
  \<^item> \<open>Progress\<close>: when \<open>applyMixin\<close> and the decorator return: a step is a run of
    own-property writes to the class and its prototype (\<open>put_steps {c, p}\<close>), and such
    writes keep every possible assignment possible.
  \<^item> this theory: a concrete heap (\<open>ex_heap\<close>: the intrinsics, two classes, mixins and
    plain objects) on which the witnesses evaluate the model by \<open>simp\<close>, the
    property that spans \<open>applyMixin\<close> and the builder (C20), and concrete runs that
    reproduce the findings on that heap.

  \<^bold>\<open>What is proved.\<close> For \<open>applyMixin\<close>: members already truthy on the class or its
  prototype are never changed (C1), fresh members land on the prototype when they are
  functions and on the class otherwise (C2), only the class and its prototype change and
  only at the mixin's keys (C6), the class is returned (C10), a nullish mixin throws
  before any change (C11), at most one object is allocated (C16), and a returning
  \<open>contextTypes\<close> step leaves a fresh object holding the old entries overwritten by
  the mixin's (C18). A member step throws exactly when both member tests are falsy and
  its target refuses the assignment, and then it leaves the heap as it was (C25); a mixin
  without \<open>contextTypes\<close> whose keys can be assigned on the class and its prototype
  never makes \<open>applyMixin\<close> throw (C22), and for a mixin without \<open>contextTypes\<close>
  whose keys the class has on neither surface \<open>applyMixin\<close> returns and every key holds
  the mixin's value in its place (C26), the specification's first testable property.
  For the builder: additivity across any list of mixins (C3), the specification's
  composition, the builder being \<open>applyMixin\<close> applied mixin by mixin to the class the
  previous application returned (C4), exceptions without rollback (C5), at most one
  allocation per mixin (C17), and that it returns for any list of assignable mixins
  without \<open>contextTypes\<close> (C23). Applying a mixin without \<open>contextTypes\<close> a second
  time changes nothing (C19), so such a mixin listed twice in the builder acts as if
  listed once (C20, in this theory); a repeated \<open>contextTypes\<close> step leaves a second
  fresh object whose own values are exactly those of the first (C21), the
  specification's "idempotent in result", and two \<open>contextTypes\<close> steps with different
  mixins accumulate: the class's old entries, overwritten by the first mixin's,
  overwritten by the second's (C24). For the polyfill: the TypeError on a nullish
  destination (C7), that nullish sources are skipped (C8), that only the destination
  changes (C9), that a returning merge computes \<open>assign_spec\<close> (C14), that it
  returns when every copied key is assignable on the destination (C15), and that a
  source with an enumerable name whose \<open>hasOwnProperty\<close> is not a function makes it
  throw before any copy (C27). For the guard of line 3: host function and polyfill agree
  when the destination lies above the sources and \<open>hasOwnProperty\<close> is built in (C12),
  so line 40 does not depend on the host there (C13). The object model is checked
  against ECMAScript by lemmas that are not claims about the program: the guarded walk
  refines OrdinaryGet's (\<open>lookup_prop_refines_chain\<close>), the unguarded loop returns on
  well-formed heaps (\<open>proto_walk_terminates\<close>), index keys print and parse back
  (\<open>index_key_roundtrip\<close>). The section "Concrete runs" of this theory evaluates the
  findings on \<open>ex_heap\<close>: a falsy static is overwritten, an inherited name blocks a
  member, a \<open>length\<close> member throws, a null-prototype source makes the polyfill throw
  where the host function copies it, the specification's merge and accumulation
  examples, and a repeated \<open>contextTypes\<close> merge.

  \<^bold>\<open>Bounds and termination.\<close> There is no fuel. \<open>lookup_prop\<close> and \<open>proto_keys\<close>
  follow a prototype link only to a lower address, which makes them total; \<open>heap_ok\<close>
  orders every prototype below its object, so on well-formed heaps the guard never
  cuts a chain, and OrdinaryGet's loop without the guard, \<open>proto_walk\<close>, a
  \<open>partial_function (option)\<close>, returns the same result. Every loop of the source runs
  over a finite list computed before it starts (\<open>Object.keys\<close>, the \<open>for-in\<close> keys,
  the mixin list), so all other definitions are structural recursions, and the
  liveness claims (C15, C22, C23, C26) state that the run returns. Allocation is bounded
  by the number of \<open>contextTypes\<close> keys visited (C16, C17).

  \<^bold>\<open>Not modelled.\<close> Accessor properties (getters, setters, the \<open>__proto__\<close>
  setter that a key \<open>__proto__\<close> would hit), symbols, non-configurable and
  non-extensible objects, NaN and non-integer numbers, and user-defined
  \<open>hasOwnProperty\<close> methods (the polyfill's run stops with \<open>CallsUserCode\<close>). The
  module system itself is not modelled: the default export is the builder function.
  Array-index keys are ordered by the ECMAScript rules. Every line of code of the source
  is translated; the lines left out are comments. The host object model stays partly
  modelled on purpose: the source itself creates only data properties, and a mixin with
  a getter would make \<open>mixin[key]\<close> (line 54) run user code, which a faithful model
  would have to take as a parameter.
\<close>

section \<open>A concrete heap\<close>

definition hidden :: "val \<Rightarrow> property" where
  "hidden v = \<lparr>pval = v, writable = True, enumerable = False\<rparr>"

definition frozen :: "val \<Rightarrow> property" where
  "frozen v = \<lparr>pval = v, writable = False, enumerable = False\<rparr>"

definition plain_obj :: "(key \<times> val) list \<Rightarrow> obj" where
  "plain_obj kvs = \<lparr>props = map (\<lambda>(k, v). (k, new_data_prop v)) kvs, proto = Some 0, callable = False\<rparr>"

definition fun_obj :: obj where
  "fun_obj = \<lparr>props = [], proto = Some 1, callable = True\<rparr>"

text \<open>
  Addresses: 0 \<open>Object.prototype\<close>, 1 \<open>Function.prototype\<close>, 2
  \<open>hasOwnProperty\<close>, 3--5 the String, Number and Boolean prototypes; 6, 7 the
  prototype and constructor of \<open>class A {}\<close>; 8 the mixin
  \<open>{greet, name: 'B', x: 1, contextTypes: {a: 1}}\<close>, 9 \<open>greet\<close>, 10 \<open>{a: 1}\<close>;
  11 \<open>{contextTypes: {b: 2}}\<close>, 12 \<open>{b: 2}\<close>; 13 \<open>{length: 5}\<close>; 14, 15 the
  prototype and constructor of \<open>class B { }\<close> with \<open>B.count = 0\<close>; 16
  \<open>{count: 5}\<close>; 17 \<open>{toString: greet}\<close>; 18 \<open>{contextTypes: {a: 1}}\<close>; 19
  \<open>Object.create(null)\<close> with \<open>x: 1\<close>; 20 \<open>{}\<close>; 21 \<open>{x: 1}\<close>; 22 \<open>{y: 2}\<close>;
  23 \<open>{x: 2}\<close>.
\<close>

definition ex_heap :: heap where
  "ex_heap = \<lparr>objs = [
     \<lparr>props = [(''hasOwnProperty'', hidden (Ref 2)), (''toString'', hidden (Ref 2))],
        proto = None, callable = False\<rparr>,
     \<lparr>props = [(''name'', frozen (Str [])), (''length'', frozen (Num 0))],
        proto = Some 0, callable = True\<rparr>,
     fun_obj,
     \<lparr>props = [], proto = Some 0, callable = False\<rparr>,
     \<lparr>props = [], proto = Some 0, callable = False\<rparr>,
     \<lparr>props = [], proto = Some 0, callable = False\<rparr>,
     \<lparr>props = [(''constructor'', hidden (Ref 7))], proto = Some 0, callable = False\<rparr>,
     \<lparr>props = [(''length'', frozen (Num 0)), (''name'', frozen (Str ''A'')),
               (''prototype'', frozen (Ref 6))], proto = Some 1, callable = True\<rparr>,
     plain_obj [(''greet'', Ref 9), (''name'', Str ''B''), (''x'', Num 1), (''contextTypes'', Ref 10)],
     fun_obj,
     plain_obj [(''a'', Num 1)],
     plain_obj [(''contextTypes'', Ref 12)],
     plain_obj [(''b'', Num 2)],
     plain_obj [(''length'', Num 5)],
     \<lparr>props = [(''constructor'', hidden (Ref 15))], proto = Some 0, callable = False\<rparr>,
     \<lparr>props = [(''length'', frozen (Num 0)), (''name'', frozen (Str ''B'')),
               (''prototype'', frozen (Ref 14)), (''count'', new_data_prop (Num 0))],
        proto = Some 1, callable = True\<rparr>,
     plain_obj [(''count'', Num 5)],
     plain_obj [(''toString'', Ref 9)],
     plain_obj [(''contextTypes'', Ref 10)],
     \<lparr>props = [(''x'', new_data_prop (Num 1))], proto = None, callable = False\<rparr>,
     plain_obj [],
     plain_obj [(''x'', Num 1)],
     plain_obj [(''y'', Num 2)],
     plain_obj [(''x'', Num 2)]],
   intrinsics = \<lparr>object_proto = 0, string_proto = 3, number_proto = 4, boolean_proto = 5,
                 has_own_fn = 2\<rparr>\<rparr>"

text \<open>The own properties of a value as key--value pairs, in property order.\<close>

definition own_entries :: "heap \<Rightarrow> val \<Rightarrow> (key \<times> val) list" where
  "own_entries h v = map (\<lambda>(k, p). (k, pval p)) (own_props_of h v)"

lemmas ex_heap_simps = ex_heap_def hidden_def frozen_def plain_obj_def fun_obj_def new_data_prop_def

lemmas run_simps =
  apply_mixin_def mixin_step_def merge_context_types_def copy_member_def js_typeof_function_def
  apply_mixin_builder_def
  object_assign_def assign_source_def forin_keys_def call_has_own_def assign_key_def to_object_def
  js_get_def get_value_def js_set_def put_own_def object_keys_def enum_keys_def ordered_keys_def
  new_object_def alloc_def obj_at_def nullish_def js_bind_def lookup_prop.simps proto_keys.simps
  own_entries_def
  array_index_def canonical_index_def dec_value_def digit_value_def is_digit_def decimal_digits_def
  native_assign_def native_assign_source_def native_assign_key_def assign_installed_def

lemma heap_ok_ex_heap: "heap_ok ex_heap"
  by (simp add: heap_ok_def obj_ok_def realm_ok_def realm_below_def ex_heap_simps upt_rec)

lemma length_ex_heap: "length (objs ex_heap) = 24" by (simp add: ex_heap_def)

lemma assign_pre_ex: "assign_pre 23 23 ex_heap [Ref 21, Null, Ref 22]"
proof -
  have "builtin_has_own ex_heap (Ref 21) \<and> builtin_has_own ex_heap (Ref 22) \<and>
        realm_below 23 (intrinsics ex_heap)"
    by (simp add: builtin_has_own_def realm_below_def ex_heap_simps run_simps)
  with heap_ok_ex_heap length_ex_heap show ?thesis
    by (simp add: assign_pre_def builtin_has_own_def nullish_def)
qed

lemma keys_of_ex_mixins:
  "enum_keys (own_props_of ex_heap (Ref 10)) = [''a'']"
  "enum_keys (own_props_of ex_heap (Ref 16)) = [''count'']"
  by (simp_all add: ex_heap_simps run_simps)

lemma prototype_of_A: "get_value ex_heap (Ref 7) ''prototype'' = Inr (Ref 6)"
  by (simp add: ex_heap_simps run_simps)

section \<open>Properties across components\<close>

text \<open>
  C20 (equivalence). Across the builder and \<open>applyMixin\<close>: listing a mixin without
  \<open>contextTypes\<close> twice, \<open>applyMixinBuilder(M, M)\<close>, has exactly the effect and
  result of \<open>applyMixinBuilder(M)\<close> on a class, whether the application returns or
  throws.
\<close>

theorem apply_mixin_builder_repeat:
  assumes ok: "heap_ok h" and c: "c < length (objs h)"
    and pr: "get_value h (Ref c) ''prototype'' = Inr (Ref p)"
    and disj: "addr_of m \<inter> {c, p} = {}"
    and ct: "''contextTypes'' \<notin> set (enum_keys (own_props_of h m))"
  shows "apply_mixin_builder [m, m] (Ref c) h = apply_mixin_builder [m] (Ref c) h"
proof (cases "apply_mixin (Ref c) m h")
  case (Pair r h1)
  show ?thesis
  proof (cases r)
    case (Inl e)
    with Pair show ?thesis by (simp add: apply_mixin_builder_def js_bind_def)
  next
    case (Inr t)
    with Pair have run: "apply_mixin (Ref c) m h = (Inr t, h1)" by simp
    then have t: "t = Ref c" by (rule apply_mixin_result)
    from apply_mixin_settles [OF ok c pr disj ct run]
    have nn: "\<not> nullish m" and own: "own_props_of h1 m = own_props_of h m"
      and st: "\<forall>k \<in> set (enum_keys (own_props_of h1 m)). mixin_settled m c p k h1" by simp_all
    have "''contextTypes'' \<notin> set (enum_keys (own_props_of h1 m))" using ct own by simp
    from apply_mixin_settled_noop [OF nn this st] run t show ?thesis
      by (simp add: apply_mixin_builder_def js_bind_def js_return_def)
  qed
qed

section \<open>Witnesses\<close>

theorem apply_mixin_keeps_defined_witness:
  "heap_ok ex_heap \<and> 7 < length (objs ex_heap) \<and>
   get_value ex_heap (Ref 7) ''prototype'' = Inr (Ref 6) \<and> ''name'' \<noteq> ''contextTypes'' \<and>
   get_value ex_heap (Ref 7) ''name'' = Inr (Str ''A'') \<and> get_value ex_heap (Ref 6) ''name'' = Inr Undef \<and>
   (truthy (Str ''A'') \<or> truthy Undef) \<and>
   list_all (\<lambda>x. map_of (props (objs (snd (apply_mixin (Ref 7) (Ref 8) ex_heap)) ! x)) ''name'' =
      map_of (props (objs ex_heap ! x)) ''name'') [0..<length (objs ex_heap)]"
proof -
  have a: "get_value ex_heap (Ref 7) ''name'' = Inr (Str ''A'')" by (simp add: ex_heap_simps run_simps)
  have b: "get_value ex_heap (Ref 6) ''name'' = Inr Undef" by (simp add: ex_heap_simps run_simps)
  have c: "7 < length (objs ex_heap)" by (simp add: length_ex_heap)
  from ApplyMixin.apply_mixin_keeps_defined [OF heap_ok_ex_heap c prototype_of_A _ a b _ prod.collapse [symmetric]]
  show ?thesis using heap_ok_ex_heap c prototype_of_A a b by (simp add: list_all_iff)
qed

theorem apply_mixin_installs_witness:
  "heap_ok ex_heap \<and> 7 < length (objs ex_heap) \<and>
   get_value ex_heap (Ref 7) ''prototype'' = Inr (Ref 6) \<and> val_ok (length (objs ex_heap)) (Ref 8) \<and>
   ''greet'' \<in> set (enum_keys (own_props_of ex_heap (Ref 8))) \<and> ''greet'' \<noteq> ''contextTypes'' \<and>
   get_value ex_heap (Ref 7) ''greet'' = Inr Undef \<and> \<not> truthy Undef \<and>
   get_value ex_heap (Ref 6) ''greet'' = Inr Undef \<and>
   get_value ex_heap (Ref 8) ''greet'' = Inr (Ref 9) \<and>
   apply_mixin (Ref 7) (Ref 8) ex_heap = (Inr (Ref 7), snd (apply_mixin (Ref 7) (Ref 8) ex_heap)) \<and>
   map_option pval (map_of (props (objs (snd (apply_mixin (Ref 7) (Ref 8) ex_heap)) !
      (if is_function ex_heap (Ref 9) then 6 else 7))) ''greet'') = Some (Ref 9)"
proof -
  have c: "7 < length (objs ex_heap)" and m: "val_ok (length (objs ex_heap)) (Ref 8)"
    by (simp_all add: length_ex_heap)
  have key: "''greet'' \<in> set (enum_keys (own_props_of ex_heap (Ref 8)))"
    by (simp add: ex_heap_simps run_simps)
  have a: "get_value ex_heap (Ref 7) ''greet'' = Inr Undef" by (simp add: ex_heap_simps run_simps)
  have b: "get_value ex_heap (Ref 6) ''greet'' = Inr Undef" by (simp add: ex_heap_simps run_simps)
  have v: "get_value ex_heap (Ref 8) ''greet'' = Inr (Ref 9)" by (simp add: ex_heap_simps run_simps)
  have run: "apply_mixin (Ref 7) (Ref 8) ex_heap = (Inr (Ref 7), snd (apply_mixin (Ref 7) (Ref 8) ex_heap))"
    by (rule prod_eqI) (simp_all add: ex_heap_simps run_simps)
  from ApplyMixin.apply_mixin_installs [OF heap_ok_ex_heap c prototype_of_A m key _ a _ b _ v run]
  show ?thesis using heap_ok_ex_heap c prototype_of_A m key a b v run by simp
qed


theorem apply_mixin_builder_keeps_defined_witness:
  "heap_ok ex_heap \<and> 7 < length (objs ex_heap) \<and>
   get_value ex_heap (Ref 7) ''prototype'' = Inr (Ref 6) \<and> ''name'' \<noteq> ''contextTypes'' \<and>
   get_value ex_heap (Ref 7) ''name'' = Inr (Str ''A'') \<and> get_value ex_heap (Ref 6) ''name'' = Inr Undef \<and>
   (truthy (Str ''A'') \<or> truthy Undef) \<and>
   list_all (\<lambda>x. map_of (props (objs (snd (apply_mixin_builder [Ref 8, Ref 11, Ref 13] (Ref 7) ex_heap)) ! x)) ''name'' =
      map_of (props (objs ex_heap ! x)) ''name'') [0..<length (objs ex_heap)]"
proof -
  have a: "get_value ex_heap (Ref 7) ''name'' = Inr (Str ''A'')" by (simp add: ex_heap_simps run_simps)
  have b: "get_value ex_heap (Ref 6) ''name'' = Inr Undef" by (simp add: ex_heap_simps run_simps)
  have c: "7 < length (objs ex_heap)" by (simp add: length_ex_heap)
  from MixinBuilder.apply_mixin_builder_keeps_defined
         [OF heap_ok_ex_heap c prototype_of_A _ a b _ prod.collapse [symmetric]]
  show ?thesis using heap_ok_ex_heap c prototype_of_A a b by (simp add: list_all_iff)
qed

theorem apply_mixin_builder_throw_witness:
  "apply_mixin_builder [Ref 8] (Ref 7) ex_heap =
     (Inr (Ref 7), snd (apply_mixin_builder [Ref 8] (Ref 7) ex_heap)) \<and>
   apply_mixin (Ref 7) (Ref 13) (snd (apply_mixin_builder [Ref 8] (Ref 7) ex_heap)) =
     (Inl TypeError, snd (apply_mixin (Ref 7) (Ref 13) (snd (apply_mixin_builder [Ref 8] (Ref 7) ex_heap)))) \<and>
   apply_mixin_builder ([Ref 8] @ Ref 13 # [Ref 11]) (Ref 7) ex_heap =
     (Inl TypeError, snd (apply_mixin (Ref 7) (Ref 13) (snd (apply_mixin_builder [Ref 8] (Ref 7) ex_heap))))"
proof -
  have first: "apply_mixin_builder [Ref 8] (Ref 7) ex_heap =
     (Inr (Ref 7), snd (apply_mixin_builder [Ref 8] (Ref 7) ex_heap))"
    by (rule prod_eqI) (simp_all add: ex_heap_simps run_simps)
  have second: "apply_mixin (Ref 7) (Ref 13) (snd (apply_mixin_builder [Ref 8] (Ref 7) ex_heap)) =
     (Inl TypeError, snd (apply_mixin (Ref 7) (Ref 13) (snd (apply_mixin_builder [Ref 8] (Ref 7) ex_heap))))"
    by (rule prod_eqI) (simp_all add: ex_heap_simps run_simps)
  from MixinBuilder.apply_mixin_builder_throw [OF first second, of "[Ref 11]"] first second
  show ?thesis by simp
qed


theorem apply_mixin_class_frame_witness:
  "7 < length (objs ex_heap) \<and> get_value ex_heap (Ref 7) ''prototype'' = Inr (Ref 6) \<and>
   heap_frame ({7, 6} \<times> set (enum_keys (own_props_of ex_heap (Ref 8)))) ex_heap
     (snd (apply_mixin (Ref 7) (Ref 8) ex_heap))"
proof -
  have c: "7 < length (objs ex_heap)" by (simp add: length_ex_heap)
  from ApplyMixin.apply_mixin_class_frame [where m = "Ref 8", OF c prototype_of_A prod.collapse [symmetric]]
  show ?thesis using c prototype_of_A by blast
qed

theorem apply_mixin_builder_result_witness:
  "apply_mixin_builder [Ref 8, Ref 11] (Ref 7) ex_heap =
     (Inr (Ref 7), snd (apply_mixin_builder [Ref 8, Ref 11] (Ref 7) ex_heap)) \<and> Ref 7 = Ref 7"
proof -
  have run: "apply_mixin_builder [Ref 8, Ref 11] (Ref 7) ex_heap =
     (Inr (Ref 7), snd (apply_mixin_builder [Ref 8, Ref 11] (Ref 7) ex_heap))"
    by (rule prod_eqI) (simp_all add: ex_heap_simps run_simps)
  from MixinBuilder.apply_mixin_builder_result [OF run] run show ?thesis by simp
qed

theorem apply_mixin_nullish_mixin_witness:
  "nullish Null \<and> apply_mixin (Ref 7) Null ex_heap = (Inl TypeError, ex_heap)"
  using ApplyMixin.apply_mixin_nullish_mixin [of Null "Ref 7" ex_heap] by (simp add: nullish_def)

theorem object_assign_nullish_witness:
  "nullish Undef \<and> object_assign Undef [Ref 21] ex_heap = (Inl TypeError, ex_heap)"
  using Assign.object_assign_nullish [of Undef "[Ref 21]" ex_heap] by (simp add: nullish_def)

theorem assign_sources_skip_nullish_witness:
  "nullish Null \<and> assign_sources 20 ([Ref 21] @ Null # [Ref 22]) = assign_sources 20 ([Ref 21] @ [Ref 22])"
  using Assign.assign_sources_skip_nullish [of Null 20 "[Ref 21]" "[Ref 22]"] by (simp add: nullish_def)

theorem object_assign_Ref_effect_witness:
  "heap_ok ex_heap \<and> list_all (val_ok (length (objs ex_heap))) [Ref 21, Null, Ref 22] \<and>
   heap_frame ({20} \<times> UNIV) ex_heap (snd (object_assign (Ref 20) [Ref 21, Null, Ref 22] ex_heap)) \<and>
   length (objs (snd (object_assign (Ref 20) [Ref 21, Null, Ref 22] ex_heap))) = length (objs ex_heap) \<and>
   heap_ok (snd (object_assign (Ref 20) [Ref 21, Null, Ref 22] ex_heap)) \<and>
   fst (object_assign (Ref 20) [Ref 21, Null, Ref 22] ex_heap) = Inr (Ref 20)"
proof -
  have s: "list_all (val_ok (length (objs ex_heap))) [Ref 21, Null, Ref 22]"
    by (simp add: length_ex_heap)
  have r: "fst (object_assign (Ref 20) [Ref 21, Null, Ref 22] ex_heap) = Inr (Ref 20)"
    by (simp add: ex_heap_simps run_simps)
  from Assign.object_assign_Ref_effect [OF heap_ok_ex_heap s prod.collapse [symmetric]]
  show ?thesis using heap_ok_ex_heap s r by simp
qed

theorem assign_installed_agree_witness:
  "assign_pre 23 23 ex_heap [Ref 21, Null, Ref 22] \<and>
   assign_installed True (Ref 23) [Ref 21, Null, Ref 22] ex_heap =
   assign_installed False (Ref 23) [Ref 21, Null, Ref 22] ex_heap"
  using Native_Assign.assign_installed_agree [OF assign_pre_ex] assign_pre_ex by simp

theorem context_types_merge_host_independent_witness:
  "heap_ok ex_heap \<and> val_ok (length (objs ex_heap)) (Ref 10) \<and> val_ok (length (objs ex_heap)) (Ref 12) \<and>
   builtin_has_own ex_heap (Ref 10) \<and> builtin_has_own ex_heap (Ref 12) \<and>
   js_bind new_object (\<lambda>fresh. assign_installed True (Ref fresh) [Ref 10, Ref 12]) ex_heap =
   js_bind new_object (\<lambda>fresh. assign_installed False (Ref fresh) [Ref 10, Ref 12]) ex_heap"
proof -
  have v: "val_ok (length (objs ex_heap)) (Ref 10)" "val_ok (length (objs ex_heap)) (Ref 12)"
    by (simp_all add: length_ex_heap)
  have b: "builtin_has_own ex_heap (Ref 10)" "builtin_has_own ex_heap (Ref 12)"
    by (simp_all add: builtin_has_own_def ex_heap_simps run_simps)
  from Native_Assign.context_types_merge_host_independent [OF heap_ok_ex_heap v b] heap_ok_ex_heap v b
  show ?thesis by simp
qed

theorem object_assign_merges_witness:
  "assign_pre 23 23 ex_heap [Ref 21, Null, Ref 22] \<and>
   object_assign (Ref 23) [Ref 21, Null, Ref 22] ex_heap =
     (Inr (Ref 23), snd (object_assign (Ref 23) [Ref 21, Null, Ref 22] ex_heap)) \<and>
   own_values (snd (object_assign (Ref 23) [Ref 21, Null, Ref 22] ex_heap)) 23 =
     assign_spec ex_heap 23 [Ref 21, Null, Ref 22]"
proof -
  have run: "object_assign (Ref 23) [Ref 21, Null, Ref 22] ex_heap =
     (Inr (Ref 23), snd (object_assign (Ref 23) [Ref 21, Null, Ref 22] ex_heap))"
    by (rule prod_eqI) (simp_all add: ex_heap_simps run_simps)
  from Native_Assign.object_assign_merges [OF assign_pre_ex run] assign_pre_ex run show ?thesis by simp
qed

theorem object_assign_returns_witness:
  "assign_pre 23 23 ex_heap [Ref 21, Null, Ref 22] \<and>
   list_all (\<lambda>s. list_all (assignable ex_heap 23) (enum_keys (own_props_of ex_heap s))) [Ref 21, Null, Ref 22] \<and>
   (\<exists>h'. object_assign (Ref 23) [Ref 21, Null, Ref 22] ex_heap = (Inr (Ref 23), h'))"
proof -
  have a: "list_all (\<lambda>s. list_all (assignable ex_heap 23) (enum_keys (own_props_of ex_heap s)))
             [Ref 21, Null, Ref 22]"
    by (simp add: assignable_def ex_heap_simps run_simps)
  from Native_Assign.object_assign_returns [OF assign_pre_ex a] assign_pre_ex a show ?thesis by simp
qed

theorem apply_mixin_alloc_bound_witness:
  "heap_ok ex_heap \<and>
   apply_mixin (Ref 18) (Ref 11) ex_heap =
     (fst (apply_mixin (Ref 18) (Ref 11) ex_heap), snd (apply_mixin (Ref 18) (Ref 11) ex_heap)) \<and>
   length (objs (snd (apply_mixin (Ref 18) (Ref 11) ex_heap))) \<le> Suc (length (objs ex_heap))"
  using ApplyMixin.apply_mixin_alloc_bound [OF heap_ok_ex_heap prod.collapse [symmetric]] heap_ok_ex_heap
  by simp

theorem apply_mixin_idempotent_witness:
  "heap_ok ex_heap \<and> 7 < length (objs ex_heap) \<and>
   get_value ex_heap (Ref 7) ''prototype'' = Inr (Ref 6) \<and> addr_of (Ref 10) \<inter> {7, 6} = {} \<and>
   ''contextTypes'' \<notin> set (enum_keys (own_props_of ex_heap (Ref 10))) \<and>
   apply_mixin (Ref 7) (Ref 10) ex_heap = (Inr (Ref 7), snd (apply_mixin (Ref 7) (Ref 10) ex_heap)) \<and>
   apply_mixin (Ref 7) (Ref 10) (snd (apply_mixin (Ref 7) (Ref 10) ex_heap)) =
     (Inr (Ref 7), snd (apply_mixin (Ref 7) (Ref 10) ex_heap))"
proof -
  have c: "7 < length (objs ex_heap)" by (simp add: length_ex_heap)
  have ct: "''contextTypes'' \<notin> set (enum_keys (own_props_of ex_heap (Ref 10)))"
    by (simp add: ex_heap_simps run_simps)
  have run: "apply_mixin (Ref 7) (Ref 10) ex_heap = (Inr (Ref 7), snd (apply_mixin (Ref 7) (Ref 10) ex_heap))"
    by (rule prod_eqI) (simp_all add: ex_heap_simps run_simps)
  from Idempotence.apply_mixin_idempotent [OF heap_ok_ex_heap c prototype_of_A _ ct run]
  show ?thesis using heap_ok_ex_heap c prototype_of_A ct run by simp
qed

theorem apply_mixin_builder_repeat_witness:
  "heap_ok ex_heap \<and> 7 < length (objs ex_heap) \<and>
   get_value ex_heap (Ref 7) ''prototype'' = Inr (Ref 6) \<and> addr_of (Ref 10) \<inter> {7, 6} = {} \<and>
   ''contextTypes'' \<notin> set (enum_keys (own_props_of ex_heap (Ref 10))) \<and>
   apply_mixin_builder [Ref 10, Ref 10] (Ref 7) ex_heap = apply_mixin_builder [Ref 10] (Ref 7) ex_heap"
proof -
  have c: "7 < length (objs ex_heap)" by (simp add: length_ex_heap)
  have ct: "''contextTypes'' \<notin> set (enum_keys (own_props_of ex_heap (Ref 10)))"
    by (simp add: ex_heap_simps run_simps)
  from apply_mixin_builder_repeat [OF heap_ok_ex_heap c prototype_of_A _ ct]
  show ?thesis using heap_ok_ex_heap c prototype_of_A ct by simp
qed

theorem apply_mixin_builder_alloc_bound_witness:
  "builder_ok [Ref 8, Ref 11] (Ref 7) ex_heap \<and>
   apply_mixin_builder [Ref 8, Ref 11] (Ref 7) ex_heap =
     (fst (apply_mixin_builder [Ref 8, Ref 11] (Ref 7) ex_heap),
      snd (apply_mixin_builder [Ref 8, Ref 11] (Ref 7) ex_heap)) \<and>
   length (objs (snd (apply_mixin_builder [Ref 8, Ref 11] (Ref 7) ex_heap))) \<le> length (objs ex_heap) + 2"
proof -
  have ok: "builder_ok [Ref 8, Ref 11] (Ref 7) ex_heap"
    using heap_ok_ex_heap by (simp add: builder_ok_def length_ex_heap)
  from MixinBuilder.apply_mixin_builder_alloc_bound [OF ok prod.collapse [symmetric]] ok show ?thesis by simp
qed

theorem context_types_merge_result_witness:
  "heap_ok ex_heap \<and> 7 < length (objs ex_heap) \<and> val_ok (length (objs ex_heap)) (Ref 18) \<and>
   get_value ex_heap (Ref 7) ''contextTypes'' = Inr Undef \<and>
   get_value ex_heap (Ref 18) ''contextTypes'' = Inr (Ref 10) \<and>
   builtin_has_own ex_heap Undef \<and> builtin_has_own ex_heap (Ref 10) \<and>
   mixin_step (Ref 18) (Ref 7) ''contextTypes'' ex_heap =
     (Inr (Ref 7), snd (mixin_step (Ref 18) (Ref 7) ''contextTypes'' ex_heap)) \<and>
   get_value (snd (mixin_step (Ref 18) (Ref 7) ''contextTypes'' ex_heap)) (Ref 7) ''contextTypes'' =
     Inr (Ref (length (objs ex_heap))) \<and>
   own_values (snd (mixin_step (Ref 18) (Ref 7) ''contextTypes'' ex_heap)) (length (objs ex_heap)) =
     own_enum_values ex_heap Undef ++ own_enum_values ex_heap (Ref 10)"
proof -
  have c: "7 < length (objs ex_heap)" and m: "val_ok (length (objs ex_heap)) (Ref 18)"
    by (simp_all add: length_ex_heap)
  have o: "get_value ex_heap (Ref 7) ''contextTypes'' = Inr Undef"
    and a: "get_value ex_heap (Ref 18) ''contextTypes'' = Inr (Ref 10)"
    by (simp_all add: ex_heap_simps run_simps)
  have bo: "builtin_has_own ex_heap Undef" by (simp add: builtin_has_own_def nullish_def)
  have ba: "builtin_has_own ex_heap (Ref 10)" by (simp add: builtin_has_own_def ex_heap_simps run_simps)
  have run: "mixin_step (Ref 18) (Ref 7) ''contextTypes'' ex_heap =
     (Inr (Ref 7), snd (mixin_step (Ref 18) (Ref 7) ''contextTypes'' ex_heap))"
    by (rule prod_eqI) (simp_all add: ex_heap_simps run_simps)
  from ContextTypes.context_types_merge_result [OF heap_ok_ex_heap c m o a bo ba run]
  show ?thesis using heap_ok_ex_heap c m o a bo ba run by simp
qed

theorem context_types_reapply_values_witness:
  "heap_ok ex_heap \<and> 7 < length (objs ex_heap) \<and> val_ok (length (objs ex_heap)) (Ref 11) \<and>
   7 \<notin> addr_of (Ref 11) \<and> map_of (own_props_of ex_heap (Ref 11)) ''contextTypes'' \<noteq> None \<and>
   get_value ex_heap (Ref 7) ''contextTypes'' = Inr Undef \<and>
   get_value ex_heap (Ref 11) ''contextTypes'' = Inr (Ref 12) \<and> 7 \<notin> addr_of (Ref 12) \<and>
   builtin_has_own ex_heap Undef \<and> builtin_has_own ex_heap (Ref 12) \<and>
   builtin_has_own ex_heap (Ref (object_proto (intrinsics ex_heap))) \<and>
   ''hasOwnProperty'' \<notin> dom (own_enum_values ex_heap Undef ++ own_enum_values ex_heap (Ref 12)) \<and>
   mixin_step (Ref 11) (Ref 7) ''contextTypes'' ex_heap =
     (Inr (Ref 7), snd (mixin_step (Ref 11) (Ref 7) ''contextTypes'' ex_heap)) \<and>
   mixin_step (Ref 11) (Ref 7) ''contextTypes'' (snd (mixin_step (Ref 11) (Ref 7) ''contextTypes'' ex_heap)) =
     (Inr (Ref 7), snd (mixin_step (Ref 11) (Ref 7) ''contextTypes''
        (snd (mixin_step (Ref 11) (Ref 7) ''contextTypes'' ex_heap)))) \<and>
   own_values (snd (mixin_step (Ref 11) (Ref 7) ''contextTypes''
       (snd (mixin_step (Ref 11) (Ref 7) ''contextTypes'' ex_heap)))) 25 =
     own_values (snd (mixin_step (Ref 11) (Ref 7) ''contextTypes'' ex_heap)) 24"
proof -
  have c: "7 < length (objs ex_heap)" and m: "val_ok (length (objs ex_heap)) (Ref 11)"
    by (simp_all add: length_ex_heap)
  have mk: "map_of (own_props_of ex_heap (Ref 11)) ''contextTypes'' \<noteq> None"
    by (simp add: ex_heap_simps obj_at_def)
  have o: "get_value ex_heap (Ref 7) ''contextTypes'' = Inr Undef"
    and a: "get_value ex_heap (Ref 11) ''contextTypes'' = Inr (Ref 12)"
    by (simp_all add: ex_heap_simps run_simps)
  have bo: "builtin_has_own ex_heap Undef" by (simp add: builtin_has_own_def nullish_def)
  have ba: "builtin_has_own ex_heap (Ref 12)" and op: "builtin_has_own ex_heap (Ref (object_proto (intrinsics ex_heap)))"
    by (simp_all add: builtin_has_own_def ex_heap_simps run_simps)
  have hop: "''hasOwnProperty'' \<notin> dom (own_enum_values ex_heap Undef ++ own_enum_values ex_heap (Ref 12))"
    by (simp add: domIff map_add_def own_enum_values_def ex_heap_simps obj_at_def)
  have run1: "mixin_step (Ref 11) (Ref 7) ''contextTypes'' ex_heap =
     (Inr (Ref 7), snd (mixin_step (Ref 11) (Ref 7) ''contextTypes'' ex_heap))"
    by (rule prod_eqI) (simp_all add: ex_heap_simps run_simps)
  have run2: "mixin_step (Ref 11) (Ref 7) ''contextTypes'' (snd (mixin_step (Ref 11) (Ref 7) ''contextTypes'' ex_heap)) =
     (Inr (Ref 7), snd (mixin_step (Ref 11) (Ref 7) ''contextTypes''
        (snd (mixin_step (Ref 11) (Ref 7) ''contextTypes'' ex_heap))))"
    by (rule prod_eqI) (simp_all add: ex_heap_simps run_simps)
  from ContextTypes.context_types_reapply_values [OF heap_ok_ex_heap c m _ mk o a _ bo ba op hop run1 run2]
  show ?thesis using heap_ok_ex_heap c m mk o a bo ba op hop run1 run2 by (simp add: length_ex_heap)
qed

theorem apply_mixin_returns_witness:
  "7 < length (objs ex_heap) \<and> get_value ex_heap (Ref 7) ''prototype'' = Inr (Ref 6) \<and>
   \<not> nullish (Ref 16) \<and> ''contextTypes'' \<notin> set (enum_keys (own_props_of ex_heap (Ref 16))) \<and>
   list_all (\<lambda>k. assignable ex_heap 7 k \<and> assignable ex_heap 6 k) (enum_keys (own_props_of ex_heap (Ref 16))) \<and>
   apply_mixin (Ref 7) (Ref 16) ex_heap = (Inr (Ref 7), snd (apply_mixin (Ref 7) (Ref 16) ex_heap))"
proof -
  have c: "7 < length (objs ex_heap)" by (simp add: length_ex_heap)
  have nn: "\<not> nullish (Ref 16)" by (simp add: nullish_def)
  have ct: "''contextTypes'' \<notin> set (enum_keys (own_props_of ex_heap (Ref 16)))"
    and asg: "list_all (\<lambda>k. assignable ex_heap 7 k \<and> assignable ex_heap 6 k)
                (enum_keys (own_props_of ex_heap (Ref 16)))"
    by (simp_all add: assignable_def ex_heap_simps run_simps)
  from Progress.apply_mixin_returns [OF c prototype_of_A nn ct asg [unfolded list_all_iff]]
  obtain h' where "apply_mixin (Ref 7) (Ref 16) ex_heap = (Inr (Ref 7), h')" ..
  then show ?thesis using c nn ct asg prototype_of_A by simp
qed

theorem apply_mixin_builder_returns_witness:
  "7 < length (objs ex_heap) \<and> get_value ex_heap (Ref 7) ''prototype'' = Inr (Ref 6) \<and>
   list_all (\<lambda>m. \<not> nullish m \<and> addr_of m \<inter> {7, 6} = {} \<and>
       ''contextTypes'' \<notin> set (enum_keys (own_props_of ex_heap m)) \<and>
       list_all (\<lambda>k. assignable ex_heap 7 k \<and> assignable ex_heap 6 k) (enum_keys (own_props_of ex_heap m)))
     [Ref 10, Ref 16] \<and>
   apply_mixin_builder [Ref 10, Ref 16] (Ref 7) ex_heap =
     (Inr (Ref 7), snd (apply_mixin_builder [Ref 10, Ref 16] (Ref 7) ex_heap))"
proof -
  have c: "7 < length (objs ex_heap)" by (simp add: length_ex_heap)
  have ms: "list_all (\<lambda>m. \<not> nullish m \<and> addr_of m \<inter> {7, 6} = {} \<and>
       ''contextTypes'' \<notin> set (enum_keys (own_props_of ex_heap m)) \<and>
       list_all (\<lambda>k. assignable ex_heap 7 k \<and> assignable ex_heap 6 k) (enum_keys (own_props_of ex_heap m)))
     [Ref 10, Ref 16]"
    by (simp only: list.pred_inject keys_of_ex_mixins) (simp add: assignable_def nullish_def ex_heap_simps run_simps)
  from Progress.apply_mixin_builder_returns [OF c prototype_of_A ms [unfolded list_all_iff]]
  obtain h' where "apply_mixin_builder [Ref 10, Ref 16] (Ref 7) ex_heap = (Inr (Ref 7), h')" ..
  then show ?thesis using c ms prototype_of_A by simp
qed

theorem context_types_accumulate_values_witness:
  "heap_ok ex_heap \<and> 7 < length (objs ex_heap) \<and> val_ok (length (objs ex_heap)) (Ref 18) \<and>
   val_ok (length (objs ex_heap)) (Ref 11) \<and>
   7 \<notin> addr_of (Ref 11) \<and> map_of (own_props_of ex_heap (Ref 11)) ''contextTypes'' \<noteq> None \<and>
   get_value ex_heap (Ref 7) ''contextTypes'' = Inr Undef \<and>
   get_value ex_heap (Ref 18) ''contextTypes'' = Inr (Ref 10) \<and>
   get_value ex_heap (Ref 11) ''contextTypes'' = Inr (Ref 12) \<and> 7 \<notin> addr_of (Ref 12) \<and>
   builtin_has_own ex_heap Undef \<and> builtin_has_own ex_heap (Ref 10) \<and> builtin_has_own ex_heap (Ref 12) \<and>
   builtin_has_own ex_heap (Ref (object_proto (intrinsics ex_heap))) \<and>
   ''hasOwnProperty'' \<notin> dom (own_enum_values ex_heap Undef ++ own_enum_values ex_heap (Ref 10)) \<and>
   mixin_step (Ref 18) (Ref 7) ''contextTypes'' ex_heap =
     (Inr (Ref 7), snd (mixin_step (Ref 18) (Ref 7) ''contextTypes'' ex_heap)) \<and>
   mixin_step (Ref 11) (Ref 7) ''contextTypes'' (snd (mixin_step (Ref 18) (Ref 7) ''contextTypes'' ex_heap)) =
     (Inr (Ref 7), snd (mixin_step (Ref 11) (Ref 7) ''contextTypes''
        (snd (mixin_step (Ref 18) (Ref 7) ''contextTypes'' ex_heap)))) \<and>
   own_values (snd (mixin_step (Ref 11) (Ref 7) ''contextTypes''
       (snd (mixin_step (Ref 18) (Ref 7) ''contextTypes'' ex_heap)))) 25 =
     own_enum_values ex_heap Undef ++ own_enum_values ex_heap (Ref 10) ++ own_enum_values ex_heap (Ref 12)"
proof -
  have c: "7 < length (objs ex_heap)" and m1: "val_ok (length (objs ex_heap)) (Ref 18)"
    and m2: "val_ok (length (objs ex_heap)) (Ref 11)"
    by (simp_all add: length_ex_heap)
  have mk: "map_of (own_props_of ex_heap (Ref 11)) ''contextTypes'' \<noteq> None"
    by (simp add: ex_heap_simps obj_at_def)
  have o: "get_value ex_heap (Ref 7) ''contextTypes'' = Inr Undef"
    and a1: "get_value ex_heap (Ref 18) ''contextTypes'' = Inr (Ref 10)"
    and a2: "get_value ex_heap (Ref 11) ''contextTypes'' = Inr (Ref 12)"
    by (simp_all add: ex_heap_simps run_simps)
  have bo: "builtin_has_own ex_heap Undef" by (simp add: builtin_has_own_def nullish_def)
  have ba1: "builtin_has_own ex_heap (Ref 10)" and ba2: "builtin_has_own ex_heap (Ref 12)"
    and op: "builtin_has_own ex_heap (Ref (object_proto (intrinsics ex_heap)))"
    by (simp_all add: builtin_has_own_def ex_heap_simps run_simps)
  have hop: "''hasOwnProperty'' \<notin> dom (own_enum_values ex_heap Undef ++ own_enum_values ex_heap (Ref 10))"
    by (simp add: domIff map_add_def own_enum_values_def ex_heap_simps obj_at_def)
  have run1: "mixin_step (Ref 18) (Ref 7) ''contextTypes'' ex_heap =
     (Inr (Ref 7), snd (mixin_step (Ref 18) (Ref 7) ''contextTypes'' ex_heap))"
    by (rule prod_eqI) (simp_all add: ex_heap_simps run_simps)
  have run2: "mixin_step (Ref 11) (Ref 7) ''contextTypes'' (snd (mixin_step (Ref 18) (Ref 7) ''contextTypes'' ex_heap)) =
     (Inr (Ref 7), snd (mixin_step (Ref 11) (Ref 7) ''contextTypes''
        (snd (mixin_step (Ref 18) (Ref 7) ''contextTypes'' ex_heap))))"
    by (rule prod_eqI) (simp_all add: ex_heap_simps run_simps)
  from ContextTypes.context_types_accumulate_values
    [OF heap_ok_ex_heap c m1 m2 _ mk o a1 a2 _ bo ba1 ba2 op hop run1 run2]
  show ?thesis using heap_ok_ex_heap c m1 m2 mk o a1 a2 bo ba1 ba2 op hop run1 run2
    by (simp add: length_ex_heap)
qed

theorem copy_member_throws_iff_witness:
  "get_value ex_heap (Ref 7) ''prototype'' = Inr (Ref 6) \<and>
   get_value ex_heap (Ref 13) ''length'' = Inr (Num 5) \<and>
   get_value ex_heap (Ref 7) ''length'' = Inr (Num 0) \<and> get_value ex_heap (Ref 6) ''length'' = Inr Undef \<and>
   \<not> truthy (Num 0) \<and> \<not> truthy Undef \<and> \<not> assignable ex_heap 7 ''length'' \<and>
   copy_member (Ref 13) (Ref 7) ''length'' ex_heap = (Inl TypeError, ex_heap)"
proof -
  have gm: "get_value ex_heap (Ref 13) ''length'' = Inr (Num 5)"
    and ga: "get_value ex_heap (Ref 7) ''length'' = Inr (Num 0)"
    and gb: "get_value ex_heap (Ref 6) ''length'' = Inr Undef"
    and na: "\<not> assignable ex_heap 7 ''length''"
    by (simp_all add: assignable_def ex_heap_simps run_simps)
  have "\<not> truthy (Num 0) \<and> \<not> truthy Undef \<and>
        \<not> assignable ex_heap (if is_function ex_heap (Num 5) then 6 else 7) ''length''"
    using na by simp
  with Progress.copy_member_throws_iff [OF prototype_of_A gm ga gb] gm ga gb na prototype_of_A
  show ?thesis by simp
qed

theorem apply_mixin_fresh_members_witness:
  "heap_ok ex_heap \<and> 7 < length (objs ex_heap) \<and> get_value ex_heap (Ref 7) ''prototype'' = Inr (Ref 6) \<and>
   val_ok (length (objs ex_heap)) (Ref 10) \<and> \<not> nullish (Ref 10) \<and>
   ''contextTypes'' \<notin> set (enum_keys (own_props_of ex_heap (Ref 10))) \<and>
   lookup_prop ex_heap 7 ''a'' = None \<and> lookup_prop ex_heap 6 ''a'' = None \<and>
   apply_mixin (Ref 7) (Ref 10) ex_heap = (Inr (Ref 7), snd (apply_mixin (Ref 7) (Ref 10) ex_heap)) \<and>
   map_option pval (map_of (props (objs (snd (apply_mixin (Ref 7) (Ref 10) ex_heap)) ! 7)) ''a'') =
     Some (Num 1)"
proof -
  have c: "7 < length (objs ex_heap)" and m: "val_ok (length (objs ex_heap)) (Ref 10)"
    and nn: "\<not> nullish (Ref 10)"
    by (simp_all add: length_ex_heap nullish_def)
  have la: "lookup_prop ex_heap 7 ''a'' = None" "lookup_prop ex_heap 6 ''a'' = None"
    by (simp_all add: ex_heap_simps run_simps)
  have ct: "''contextTypes'' \<notin> set (enum_keys (own_props_of ex_heap (Ref 10)))"
    and fresh: "\<forall>k \<in> set (enum_keys (own_props_of ex_heap (Ref 10))).
                  lookup_prop ex_heap 7 k = None \<and> lookup_prop ex_heap 6 k = None"
    by (simp_all only: keys_of_ex_mixins) (simp_all add: la)
  have gv: "get_value ex_heap (Ref 10) ''a'' = Inr (Num 1)" and nf: "\<not> is_function ex_heap (Num 1)"
    by (simp_all add: ex_heap_simps run_simps)
  from Progress.apply_mixin_fresh_members [OF heap_ok_ex_heap c prototype_of_A m nn ct fresh]
  obtain h' where run: "apply_mixin (Ref 7) (Ref 10) ex_heap = (Inr (Ref 7), h')"
    and all: "\<forall>k \<in> set (enum_keys (own_props_of ex_heap (Ref 10))).
       map_option pval (map_of (props (objs h' !
         (if is_function ex_heap (projr (get_value ex_heap (Ref 10) k)) then 6 else 7))) k) =
       Some (projr (get_value ex_heap (Ref 10) k))" by blast
  have "map_option pval (map_of (props (objs h' ! 7)) ''a'') = Some (Num 1)"
    using all gv nf by (simp only: keys_of_ex_mixins) simp
  with run show ?thesis using heap_ok_ex_heap c prototype_of_A m nn ct la by simp
qed

theorem object_assign_uncallable_has_own_witness:
  "heap_ok ex_heap \<and> \<not> nullish (Ref 19) \<and> forin_keys ex_heap (Ref 19) = [''x''] \<and>
   get_value ex_heap (Ref 19) ''hasOwnProperty'' = Inr Undef \<and> \<not> is_function ex_heap Undef \<and>
   object_assign (Ref 20) [Ref 19] ex_heap = (Inl TypeError, ex_heap)"
proof -
  have nn: "\<not> nullish (Ref 19)" and fk: "forin_keys ex_heap (Ref 19) = [''x'']"
    and gv: "get_value ex_heap (Ref 19) ''hasOwnProperty'' = Inr Undef"
    by (simp_all add: ex_heap_simps run_simps)
  have nf: "\<not> is_function ex_heap Undef" by simp
  from Assign.object_assign_uncallable_has_own [OF heap_ok_ex_heap nn _ gv nf, of 20 "[]"] fk
  have "object_assign (Ref 20) [Ref 19] ex_heap = (Inl TypeError, ex_heap)" by simp
  with heap_ok_ex_heap nn fk gv nf show ?thesis by simp
qed

section \<open>Concrete runs\<close>

text \<open>
  The guard of line 48 tests truthiness, not presence: a static member
  that exists with a falsy value (\<open>B.count = 0\<close>) is overwritten by a mixin's
  \<open>count: 5\<close>, although the specification says a present key is never overwritten.
\<close>

lemma falsy_static_is_overwritten:
  "get_value ex_heap (Ref 15) ''count'' = Inr (Num 0) \<and>
   fst (apply_mixin (Ref 15) (Ref 16) ex_heap) = Inr (Ref 15) \<and>
   get_value (snd (apply_mixin (Ref 15) (Ref 16) ex_heap)) (Ref 15) ''count'' = Inr (Num 5)"
  by (simp add: ex_heap_simps run_simps)

text \<open>
  The guard reads along the prototype chains, so a mixin method named
  like a member of \<open>Object.prototype\<close> or \<open>Function.prototype\<close> (here
  \<open>toString\<close>) is installed nowhere: the application returns and leaves the class
  and its prototype as they were.
\<close>

lemma inherited_member_blocks_mixin:
  "fst (apply_mixin (Ref 7) (Ref 17) ex_heap) = Inr (Ref 7) \<and>
   own_entries (snd (apply_mixin (Ref 7) (Ref 17) ex_heap)) (Ref 6) = own_entries ex_heap (Ref 6) \<and>
   own_entries (snd (apply_mixin (Ref 7) (Ref 17) ex_heap)) (Ref 7) = own_entries ex_heap (Ref 7)"
  by (simp add: ex_heap_simps run_simps)

text \<open>
  A mixin with a non-function member \<open>length\<close> applied to a class whose
  constructor takes no arguments passes the guard (\<open>A.length\<close> is 0, falsy) and then
  assigns to the non-writable \<open>length\<close> of the class, which strict mode turns into a
  TypeError.
\<close>

lemma length_member_throws:
  "apply_mixin (Ref 7) (Ref 13) ex_heap = (Inl TypeError, ex_heap)"
  by (simp add: ex_heap_simps run_simps)

text \<open>
  The polyfill calls \<open>source.hasOwnProperty\<close>, so a source without
  \<open>Object.prototype\<close> on its chain (\<open>Object.create(null)\<close> with a key) makes it throw
  a TypeError where the specification only says that own enumerable keys are copied.
\<close>

lemma null_prototype_source_throws:
  "fst (object_assign (Ref 20) [Ref 19] ex_heap) = Inl TypeError"
  by (simp add: ex_heap_simps run_simps)

text \<open>
  The specification's examples of the merge primitive:
  \<open>mergeObjects({}, {x:1}, null, undefined, {y:2})\<close> is \<open>{x:1, y:2}\<close> and
  \<open>mergeObjects({x:1}, {x:2})\<close> is \<open>{x:2}\<close>.
\<close>

lemma merge_examples:
  "own_entries (snd (object_assign (Ref 20) [Ref 21, Null, Undef, Ref 22] ex_heap)) (Ref 20) =
     [(''x'', Num 1), (''y'', Num 2)] \<and>
   own_entries (snd (object_assign (Ref 21) [Ref 23] ex_heap)) (Ref 21) = [(''x'', Num 2)]"
  by (simp add: ex_heap_simps run_simps)

text \<open>
  The specification's accumulation example: applying
  \<open>{contextTypes: {a: 1}}\<close> and \<open>{contextTypes: {b: 2}}\<close> to a class without
  \<open>contextTypes\<close> leaves \<open>{a: 1, b: 2}\<close> in either order, with the entries in the
  order the mixins were applied.
\<close>

lemma context_types_accumulate:
  "(case get_value (snd (apply_mixin_builder [Ref 18, Ref 11] (Ref 7) ex_heap)) (Ref 7) ''contextTypes'' of
      Inr v \<Rightarrow> own_entries (snd (apply_mixin_builder [Ref 18, Ref 11] (Ref 7) ex_heap)) v
    | Inl e \<Rightarrow> []) = [(''a'', Num 1), (''b'', Num 2)] \<and>
   (case get_value (snd (apply_mixin_builder [Ref 11, Ref 18] (Ref 7) ex_heap)) (Ref 7) ''contextTypes'' of
      Inr v \<Rightarrow> own_entries (snd (apply_mixin_builder [Ref 11, Ref 18] (Ref 7) ex_heap)) v
    | Inl e \<Rightarrow> []) = [(''b'', Num 2), (''a'', Num 1)]"
  by (simp add: ex_heap_simps run_simps)

text \<open>
  Applying \<open>{contextTypes: {b: 2}}\<close> to class \<open>A\<close> a second
  time replaces the class's \<open>contextTypes\<close> by a second fresh object: the entries are
  the same (\<open>{b: 2}\<close>), the object is not, and each application allocates one.
\<close>

lemma context_types_reapply:
  "get_value (snd (apply_mixin (Ref 7) (Ref 11) ex_heap)) (Ref 7) ''contextTypes'' = Inr (Ref 24) \<and>
   get_value (snd (apply_mixin (Ref 7) (Ref 11) (snd (apply_mixin (Ref 7) (Ref 11) ex_heap))))
     (Ref 7) ''contextTypes'' = Inr (Ref 25) \<and>
   own_entries (snd (apply_mixin (Ref 7) (Ref 11) ex_heap)) (Ref 24) = [(''b'', Num 2)] \<and>
   own_entries (snd (apply_mixin (Ref 7) (Ref 11) (snd (apply_mixin (Ref 7) (Ref 11) ex_heap)))) (Ref 25) =
     [(''b'', Num 2)]"
  by (simp add: ex_heap_simps run_simps)

text \<open>
  Where the guard of line 3 matters: on a host with \<open>Object.assign\<close>,
  a source without \<open>Object.prototype\<close> on its chain is copied like any other, while
  the polyfill throws a TypeError on it.
\<close>

lemma host_assign_copies_null_prototype_source:
  "assign_installed True (Ref 20) [Ref 19] ex_heap =
     (Inr (Ref 20), snd (assign_installed True (Ref 20) [Ref 19] ex_heap)) \<and>
   own_entries (snd (assign_installed True (Ref 20) [Ref 19] ex_heap)) (Ref 20) = [(''x'', Num 1)] \<and>
   fst (assign_installed False (Ref 20) [Ref 19] ex_heap) = Inl TypeError"
proof -
  have "assign_installed True (Ref 20) [Ref 19] ex_heap =
     (Inr (Ref 20), snd (assign_installed True (Ref 20) [Ref 19] ex_heap))"
    by (rule prod_eqI) (simp_all add: ex_heap_simps run_simps)
  moreover have "own_entries (snd (assign_installed True (Ref 20) [Ref 19] ex_heap)) (Ref 20) =
     [(''x'', Num 1)]"
    by (simp add: ex_heap_simps run_simps)
  moreover have "fst (assign_installed False (Ref 20) [Ref 19] ex_heap) = Inl TypeError"
    by (simp add: ex_heap_simps run_simps)
  ultimately show ?thesis by blast
qed

end
